theory Spec2Isabelle
  imports Main "HOL-Library.Multiset" "HOL-Library.Char_ord" "HOL-Library.List_Lexorder"
begin

section \<open>The host platform: Date and Intl\<close>

text \<open>
  The program runs on a JavaScript host. Instants are milliseconds since the epoch
  (\<open>int\<close>). The calendar functions of \<open>Date\<close> are modelled by the usual
  day-number arithmetic of the proleptic Gregorian calendar; \<open>Intl.DateTimeFormat\<close>
  is a parameter of every function that calls it, since its results depend on the host's
  time-zone database. Constructing a formatter for a time zone the host does not know
  throws \<open>RangeError\<close>.
\<close>

datatype error = RangeError

definition msPerDay :: int where
  "msPerDay = 86400000"

text \<open>Day number (days since 1970-01-01) of a calendar date, months counted from 1.\<close>

definition daysFromCivil :: "int \<Rightarrow> int \<Rightarrow> int \<Rightarrow> int" where
  "daysFromCivil y mo d =
     (let y' = (if mo \<le> 2 then y - 1 else y);
          era = y' div 400;
          yoe = y' - era * 400;
          doy = (153 * (if mo > 2 then mo - 3 else mo + 9) + 2) div 5 + d - 1;
          doe = yoe * 365 + yoe div 4 - yoe div 100 + doy
      in era * 146097 + doe - 719468)"

text \<open>Calendar date \<open>(year, month from 1, day of month)\<close> of a day number.\<close>

definition civilFromDays :: "int \<Rightarrow> int \<times> int \<times> int" where
  "civilFromDays z0 =
     (let z = z0 + 719468;
          era = z div 146097;
          doe = z - era * 146097;
          yoe = (doe - doe div 1460 + doe div 36524 - doe div 146096) div 365;
          doy = doe - (365 * yoe + yoe div 4 - yoe div 100);
          mp = (5 * doy + 2) div 153;
          d = doy - (153 * mp + 2) div 5 + 1;
          mo = (if mp < 10 then mp + 3 else mp - 9)
      in (if mo \<le> 2 then yoe + era * 400 + 1 else yoe + era * 400, mo, d))"

text \<open>
  \<open>Date.UTC(year, monthIndex, day, hours, minutes, seconds)\<close>: the month index counts
  from 0 and may overflow into the year; a year in 0..99 means 1900 + year.
\<close>

definition dateUTC :: "int \<Rightarrow> int \<Rightarrow> int \<Rightarrow> int \<Rightarrow> int \<Rightarrow> int \<Rightarrow> int" where
  "dateUTC y mi d hh mm ss =
     (let yr = (if 0 \<le> y \<and> y \<le> 99 then 1900 + y else y);
          ym = yr + mi div 12;
          mn = mi mod 12
      in (daysFromCivil ym (mn + 1) 1 + d - 1) * msPerDay
           + hh * 3600000 + mm * 60000 + ss * 1000)"

definition getUTCFullYear :: "int \<Rightarrow> int" where
  "getUTCFullYear t = fst (civilFromDays (t div msPerDay))"

definition getUTCMonth :: "int \<Rightarrow> int" where
  "getUTCMonth t = fst (snd (civilFromDays (t div msPerDay))) - 1"

definition getUTCDate :: "int \<Rightarrow> int" where
  "getUTCDate t = snd (snd (civilFromDays (t div msPerDay)))"

text \<open>
  The fields \<open>formatToParts\<close> yields, already read with \<open>Number\<close>. A formatter
  takes the zone id and the instant.
\<close>

record parts =
  year :: int
  month :: int
  day :: int
  hour :: int
  minute :: int
  second :: int

type_synonym formatter = "string \<Rightarrow> int \<Rightarrow> error + parts"

section \<open>MeetingPanel: slots, overlap segments, the 3-hour test\<close>

record hm =
  hm_h :: int
  hm_m :: int

record slot =
  slot_i :: nat
  slotStart :: int
  slotEnd :: int
  localLM :: hm
  otherLM :: hm
  localWork :: bool
  otherWork :: bool
  overlap :: bool

record seg =
  startIdx :: nat
  endIdx :: nat

definition localHourMinuteFromUtcMs :: "formatter \<Rightarrow> int \<Rightarrow> string \<Rightarrow> error + hm" where
  "localHourMinuteFromUtcMs fmt utcMs zone =
     (case fmt zone utcMs of
        Inl e \<Rightarrow> Inl e
      | Inr p \<Rightarrow> Inr \<lparr>hm_h = hour p, hm_m = minute p\<rparr>)"

definition utcDayStart :: "int \<Rightarrow> int" where
  "utcDayStart now = dateUTC (getUTCFullYear now) (getUTCMonth now) (getUTCDate now) 0 0 0"

text \<open>
  The working test of one side at one slot. The source writes the same expression
  twice, for \<open>localWork\<close> and for \<open>otherWork\<close>.
\<close>

definition isWork :: "hm \<Rightarrow> int \<Rightarrow> int \<Rightarrow> bool" where
  "isWork lm workStart workEnd =
     ((hm_h lm \<ge> workStart \<and> hm_h lm < workEnd) \<or>
      (hm_h lm = workEnd \<and> hm_m lm = 0 \<and> workEnd = 24))"

text \<open>The body of the slot loop for index \<open>i\<close>.\<close>

definition slotAt ::
  "formatter \<Rightarrow> int \<Rightarrow> string \<Rightarrow> string \<Rightarrow> int \<Rightarrow> int \<Rightarrow> nat \<Rightarrow> error + slot" where
  "slotAt fmt dayStart zone localZone workStart workEnd i =
     (let sStart = dayStart + int i * 15 * 60 * 1000;
          sEnd = sStart + 15 * 60 * 1000
      in case localHourMinuteFromUtcMs fmt sStart localZone of
           Inl e \<Rightarrow> Inl e
         | Inr lLM \<Rightarrow>
             (case localHourMinuteFromUtcMs fmt sStart zone of
                Inl e \<Rightarrow> Inl e
              | Inr oLM \<Rightarrow>
                  (let lWork = isWork lLM workStart workEnd;
                       oWork = isWork oLM workStart workEnd
                   in Inr \<lparr>slot_i = i, slotStart = sStart, slotEnd = sEnd,
                            localLM = lLM, otherLM = oLM,
                            localWork = lWork, otherWork = oWork,
                            overlap = (lWork \<and> oWork)\<rparr>)))"

text \<open>\<open>for (let i = 0; i < 96; i++) { ...; arr.push(...) }\<close>, from index \<open>i\<close> on.\<close>

function slotsLoop ::
  "formatter \<Rightarrow> int \<Rightarrow> string \<Rightarrow> string \<Rightarrow> int \<Rightarrow> int \<Rightarrow> nat \<Rightarrow> slot list
     \<Rightarrow> error + slot list" where
  "slotsLoop fmt dayStart zone localZone workStart workEnd i arr =
     (if i < 96 then
        (case slotAt fmt dayStart zone localZone workStart workEnd i of
           Inl e \<Rightarrow> Inl e
         | Inr s \<Rightarrow> slotsLoop fmt dayStart zone localZone workStart workEnd (Suc i) (arr @ [s]))
      else Inr arr)"
  by pat_completeness auto
termination
  by (relation "measure (\<lambda>(fmt, dayStart, zone, localZone, workStart, workEnd, i, arr). 96 - i)")
     auto

definition slots ::
  "formatter \<Rightarrow> int \<Rightarrow> string \<Rightarrow> string \<Rightarrow> int \<Rightarrow> int \<Rightarrow> error + slot list" where
  "slots fmt dayStart zone localZone workStart workEnd =
     slotsLoop fmt dayStart zone localZone workStart workEnd 0 []"

text \<open>
  One step of \<open>slots.forEach\<close> in \<open>overlapSegments\<close>: the state is the list
  \<open>segs\<close> and the open run \<open>cur\<close> (\<open>None\<close> for \<open>null\<close>).
\<close>

fun segStep :: "seg list \<times> seg option \<Rightarrow> slot \<Rightarrow> seg list \<times> seg option" where
  "segStep (segs, cur) s =
     (if overlap s then
        (case cur of
           None \<Rightarrow> (segs, Some \<lparr>startIdx = slot_i s, endIdx = slot_i s\<rparr>)
         | Some c \<Rightarrow> (segs, Some (c\<lparr>endIdx := slot_i s\<rparr>)))
      else
        (case cur of
           Some c \<Rightarrow> (segs @ [c], None)
         | None \<Rightarrow> (segs, None)))"

definition overlapSegments :: "slot list \<Rightarrow> seg list" where
  "overlapSegments ss =
     (case foldl segStep ([], None) ss of
        (segs, Some c) \<Rightarrow> segs @ [c]
      | (segs, None) \<Rightarrow> segs)"

definition hasFull3h :: "seg list \<Rightarrow> bool" where
  "hasFull3h segs = list_ex (\<lambda>s. int (endIdx s) - int (startIdx s) + 1 \<ge> 3 * 4) segs"

fun earliestFull3h :: "int \<Rightarrow> seg list \<Rightarrow> int option" where
  "earliestFull3h dayStart [] = None"
| "earliestFull3h dayStart (sg # rest) =
     (if int (endIdx sg) - int (startIdx sg) + 1 \<ge> 12
      then Some (dayStart + int (startIdx sg) * 15 * 60 * 1000)
      else earliestFull3h dayStart rest)"

text \<open>What the component computes before it renders.\<close>

record panel =
  p_utcDayStart :: int
  p_slots :: "slot list"
  p_overlapSegments :: "seg list"
  p_hasFull3h :: bool
  p_earliestFull3h :: "int option"

definition MeetingPanel ::
  "formatter \<Rightarrow> int \<Rightarrow> string \<Rightarrow> string \<Rightarrow> int \<Rightarrow> int \<Rightarrow> error + panel" where
  "MeetingPanel fmt now zone localZone workStart workEnd =
     (let dayStart = utcDayStart now
      in case slots fmt dayStart zone localZone workStart workEnd of
           Inl e \<Rightarrow> Inl e
         | Inr ss \<Rightarrow>
             (let segs = overlapSegments ss
              in Inr \<lparr>p_utcDayStart = dayStart, p_slots = ss, p_overlapSegments = segs,
                       p_hasFull3h = hasFull3h segs,
                       p_earliestFull3h = earliestFull3h dayStart segs\<rparr>))"

section \<open>timeUtils: offsets, continents, the zone list\<close>

text \<open>
  \<open>Intl.supportedValuesOf\<close> is \<open>None\<close> on a host that does not provide it, and
  the list it returns for \<open>'timeZone'\<close> otherwise.
\<close>

definition getAllTimeZones :: "string list option \<Rightarrow> string list" where
  "getAllTimeZones supportedValuesOf =
     (case supportedValuesOf of
        Some zs \<Rightarrow> zs
      | None \<Rightarrow>
          [''Pacific/Midway'', ''America/Adak'', ''America/Anchorage'', ''America/Los_Angeles'',
           ''America/Denver'', ''America/Chicago'', ''America/New_York'', ''Atlantic/Azores'',
           ''Europe/London'', ''Europe/Berlin'', ''Europe/Moscow'', ''Asia/Dubai'',
           ''Asia/Kolkata'', ''Asia/Singapore'', ''Asia/Tokyo'', ''Australia/Sydney''])"

text \<open>
  \<open>Math.round((utcMs - now.getTime()) / 60000)\<close> rounds halves up, which on
  integers is \<open>(x + 30000) div 60000\<close>.
\<close>

definition tzOffsetMinutes :: "formatter \<Rightarrow> string \<Rightarrow> int \<Rightarrow> error + int" where
  "tzOffsetMinutes fmt timeZone now =
     (case fmt timeZone now of
        Inl e \<Rightarrow> Inl e
      | Inr p \<Rightarrow>
          (let utcMs = dateUTC (year p) (month p - 1) (day p) (hour p) (minute p) (second p);
               diffMin = (utcMs - now + 30000) div 60000
           in Inr diffMin))"

fun startsWith :: "string \<Rightarrow> string \<Rightarrow> bool" where
  "startsWith s [] = True"
| "startsWith [] (p # ps) = False"
| "startsWith (c # cs) (p # ps) = (c = p \<and> startsWith cs ps)"

fun includesStr :: "string \<Rightarrow> string \<Rightarrow> bool" where
  "includesStr [] k = (k = [])"
| "includesStr (c # cs) k = (startsWith (c # cs) k \<or> includesStr cs k)"

definition continentOf :: "string \<Rightarrow> string" where
  "continentOf z =
     (if startsWith z ''Africa/'' then ''Africa''
      else if startsWith z ''Antarctica/'' then ''Antarctica''
      else if startsWith z ''Asia/'' then ''Asia''
      else if startsWith z ''Australia/'' \<or> startsWith z ''Pacific/'' then ''Australia''
      else if startsWith z ''Europe/'' then ''Europe''
      else if startsWith z ''America/'' then
        (let south = [''Argentina'', ''Sao_Paulo'', ''Bogota'', ''Lima'', ''Caracas'',
                      ''Santiago'', ''Montevideo'', ''Asuncion'', ''La_Paz'']
         in if list_ex (\<lambda>k. includesStr z k) south then ''South America''
            else ''North America'')
      else ''Other'')"

record zoneEntry =
  tz :: string
  offset :: int
  cont :: string

text \<open>
  \<open>zones.map(tz => ({ tz, offset: tzOffsetMinutes(tz, now), cont: continentOf(tz) }))\<close>:
  an exception thrown for one element leaves \<open>map\<close>, and \<open>buildZonesList\<close>, at once.
\<close>

fun mapZones :: "formatter \<Rightarrow> int \<Rightarrow> string list \<Rightarrow> error + zoneEntry list" where
  "mapZones fmt now [] = Inr []"
| "mapZones fmt now (z # zs) =
     (case tzOffsetMinutes fmt z now of
        Inl e \<Rightarrow> Inl e
      | Inr off \<Rightarrow>
          (case mapZones fmt now zs of
             Inl e \<Rightarrow> Inl e
           | Inr es \<Rightarrow> Inr (\<lparr>tz = z, offset = off, cont = continentOf z\<rparr> # es)))"

text \<open>
  The comparator \<open>(a, b) => a.offset - b.offset || a.tz.localeCompare(b.tz)\<close>;
  \<open>localeCompare\<close> belongs to the host and is a parameter.
\<close>

definition compareZones :: "(string \<Rightarrow> string \<Rightarrow> int) \<Rightarrow> zoneEntry \<Rightarrow> zoneEntry \<Rightarrow> int" where
  "compareZones localeCompare a b =
     (if offset a - offset b \<noteq> 0 then offset a - offset b else localeCompare (tz a) (tz b))"

text \<open>
  \<open>Array.prototype.sort\<close> is stable and orders \<open>a\<close> before \<open>b\<close> when the
  comparator is not positive on them; a stable insertion sort stands for it.
\<close>

fun insertSorted :: "('a \<Rightarrow> 'a \<Rightarrow> int) \<Rightarrow> 'a \<Rightarrow> 'a list \<Rightarrow> 'a list" where
  "insertSorted cmp x [] = [x]"
| "insertSorted cmp x (y # ys) =
     (if cmp x y \<le> 0 then x # y # ys else y # insertSorted cmp x ys)"

definition arraySort :: "('a \<Rightarrow> 'a \<Rightarrow> int) \<Rightarrow> 'a list \<Rightarrow> 'a list" where
  "arraySort cmp xs = foldr (insertSorted cmp) xs []"

definition buildZonesList ::
  "string list option \<Rightarrow> formatter \<Rightarrow> (string \<Rightarrow> string \<Rightarrow> int) \<Rightarrow> int
     \<Rightarrow> error + zoneEntry list" where
  "buildZonesList supportedValuesOf fmt localeCompare now =
     (let zones = getAllTimeZones supportedValuesOf
      in case mapZones fmt now zones of
           Inl e \<Rightarrow> Inl e
         | Inr arr \<Rightarrow> Inr (arraySort (compareZones localeCompare) arr))"

section \<open>A sample host\<close>

text \<open>
  A host for concrete runs: it knows five zones, each at a fixed offset from UTC, and
  throws \<open>RangeError\<close> for any other id; its collation compares strings
  lexicographically by character code.
\<close>

definition fixedOffsetOf :: "string \<Rightarrow> int option" where
  "fixedOffsetOf z =
     (if z = ''UTC'' then Some 0
      else if z = ''Asia/Dubai'' then Some 240
      else if z = ''Asia/Kolkata'' then Some 330
      else if z = ''Asia/Tokyo'' then Some 540
      else if z = ''Asia/Seoul'' then Some 540
      else None)"

definition fixedFormatter :: formatter where
  "fixedFormatter z t =
     (case fixedOffsetOf z of
        None \<Rightarrow> Inl RangeError
      | Some off \<Rightarrow>
          (let lt = t + off * 60000;
               c = civilFromDays (lt div msPerDay);
               r = lt mod msPerDay
           in Inr \<lparr>year = fst c, month = fst (snd c), day = snd (snd c),
                    hour = r div 3600000, minute = (r mod 3600000) div 60000,
                    second = (r mod 60000) div 1000\<rparr>))"

definition lexCompare :: "string \<Rightarrow> string \<Rightarrow> int" where
  "lexCompare a b = (if a < b then - 1 else if a = b then 0 else 1)"

text \<open>
  The same host with the hour cycle that counts midnight as hour 24, as some engines
  do for \<open>hour12: false\<close>.
\<close>

definition h24Formatter :: formatter where
  "h24Formatter z t =
     (case fixedFormatter z t of
        Inl e \<Rightarrow> Inl e
      | Inr p \<Rightarrow> Inr (if hour p = 0 then p\<lparr>hour := 24\<rparr> else p))"

text \<open>An instant on 2026-11-02, and the parts of a panel that concrete runs compare.\<close>

definition sampleNow :: int where
  "sampleNow = 1793577612345"

definition panelSummary ::
  "error + panel \<Rightarrow> (int \<times> nat \<times> seg list \<times> bool \<times> int option) option" where
  "panelSummary x =
     (case x of
        Inl e \<Rightarrow> None
      | Inr r \<Rightarrow> Some (p_utcDayStart r, length (p_slots r), p_overlapSegments r,
                        p_hasFull3h r, p_earliestFull3h r))"

section \<open>The half-open window of the specification\<close>

text \<open>
  The window as the data model words it: an hour is inside when it lies in
  \<open>[startHour, endHour)\<close>. The source's test is \<open>isWork\<close>.
\<close>

definition halfOpen :: "int \<Rightarrow> int \<Rightarrow> int \<Rightarrow> bool" where
  "halfOpen h startHour endHour = (startHour \<le> h \<and> h < endHour)"

section \<open>Moving a slot to another reference day\<close>

definition shiftSlot :: "int \<Rightarrow> slot \<Rightarrow> slot" where
  "shiftSlot d s = s\<lparr>slotStart := slotStart s + d, slotEnd := slotEnd s + d\<rparr>"

section \<open>Notions for the zone list\<close>

text \<open>The entry that the \<open>map\<close> callback builds for a zone whose offset resolves.\<close>

definition zoneEntryOf :: "formatter \<Rightarrow> int \<Rightarrow> string \<Rightarrow> zoneEntry" where
  "zoneEntryOf fmt now z =
     \<lparr>tz = z, offset = projr (tzOffsetMinutes fmt z now), cont = continentOf z\<rparr>"


section \<open>The invariant of the segment reduction\<close>

text \<open>
  After the first \<open>n\<close> slots: the closed segments are runs of overlapping slots,
  each closed by the non-overlapping slot after it and apart from the next one; the open
  run, if any, ends at slot \<open>n - 1\<close>; and every overlapping slot so far lies in one
  of them.
\<close>

definition segInv :: "slot list \<Rightarrow> nat \<Rightarrow> seg list \<times> seg option \<Rightarrow> bool" where
  "segInv ss n st =
     (case st of (segs, cur) \<Rightarrow>
        sorted_wrt (\<lambda>a b. Suc (endIdx a) < startIdx b) segs \<and>
        (\<forall>s \<in> set segs. startIdx s \<le> endIdx s \<and> Suc (endIdx s) < n \<and>
             \<not> overlap (ss ! Suc (endIdx s)) \<and>
             (\<forall>k. startIdx s \<le> k \<and> k \<le> endIdx s \<longrightarrow> overlap (ss ! k)) \<and>
             (startIdx s = 0 \<or> \<not> overlap (ss ! (startIdx s - 1)))) \<and>
        (case cur of
           None \<Rightarrow> n = 0 \<or> \<not> overlap (ss ! (n - 1))
         | Some c \<Rightarrow> startIdx c \<le> endIdx c \<and> Suc (endIdx c) = n \<and>
             (\<forall>k. startIdx c \<le> k \<and> k \<le> endIdx c \<longrightarrow> overlap (ss ! k)) \<and>
             (startIdx c = 0 \<or> \<not> overlap (ss ! (startIdx c - 1))) \<and>
             (\<forall>s \<in> set segs. Suc (endIdx s) < startIdx c)) \<and>
        (\<forall>k < n. overlap (ss ! k) \<longrightarrow>
             (\<exists>s \<in> set segs. startIdx s \<le> k \<and> k \<le> endIdx s) \<or>
             (case cur of None \<Rightarrow> False | Some c \<Rightarrow> startIdx c \<le> k \<and> k \<le> endIdx c)))"


section \<open>The slot loop\<close>

lemma slotAt_Inr:
  assumes "slotAt fmt u zone lz ws we i = Inr s"
  shows "slot_i s = i"
    and "slotStart s = u + int i * 15 * 60 * 1000"
    and "slotEnd s = slotStart s + 15 * 60 * 1000"
    and "localHourMinuteFromUtcMs fmt (slotStart s) lz = Inr (localLM s)"
    and "localHourMinuteFromUtcMs fmt (slotStart s) zone = Inr (otherLM s)"
    and "localWork s = isWork (localLM s) ws we"
    and "otherWork s = isWork (otherLM s) ws we"
    and "overlap s = (localWork s \<and> otherWork s)"
  using assms
  by (auto simp: slotAt_def Let_def split: sum.splits)

lemma slotAt_ok:
  assumes "fmt lz (u + int i * 15 * 60 * 1000) = Inr p"
      and "fmt zone (u + int i * 15 * 60 * 1000) = Inr q"
  shows "\<exists>s. slotAt fmt u zone lz ws we i = Inr s"
  using assms by (simp add: slotAt_def Let_def localHourMinuteFromUtcMs_def)

lemma slotsLoop_Inr:
  "slotsLoop fmt u zone lz ws we i arr = Inr ss \<Longrightarrow> i \<le> 96 \<Longrightarrow>
     \<exists>new. ss = arr @ new \<and> length new = 96 - i \<and>
       (\<forall>k < 96 - i. slotAt fmt u zone lz ws we (i + k) = Inr (new ! k))"
proof (induction fmt u zone lz ws we i arr rule: slotsLoop.induct)
  case (1 fmt u zone lz ws we i arr)
  show ?case
  proof (cases "i < 96")
    case False
    with "1.prems" show ?thesis by simp
  next
    case True
    with "1.prems" obtain s where s: "slotAt fmt u zone lz ws we i = Inr s"
      and rest: "slotsLoop fmt u zone lz ws we (Suc i) (arr @ [s]) = Inr ss"
      by (auto split: sum.splits)
    from "1.IH"[OF True s rest] True
    obtain new where new: "ss = (arr @ [s]) @ new" "length new = 96 - Suc i"
      "\<forall>k < 96 - Suc i. slotAt fmt u zone lz ws we (Suc i + k) = Inr (new ! k)"
      by auto
    have "\<forall>k < 96 - i. slotAt fmt u zone lz ws we (i + k) = Inr ((s # new) ! k)"
    proof (intro allI impI)
      fix k assume k: "k < 96 - i"
      show "slotAt fmt u zone lz ws we (i + k) = Inr ((s # new) ! k)"
      proof (cases k)
        case 0
        then show ?thesis using s by simp
      next
        case (Suc j)
        with k new(3) show ?thesis by simp
      qed
    qed
    moreover have "ss = arr @ (s # new)" using new(1) by simp
    moreover have "length (s # new) = 96 - i" using new(2) True by simp
    ultimately show ?thesis by blast
  qed
qed

lemma slotsLoop_ok:
  "(\<forall>k. i \<le> k \<and> k < 96 \<longrightarrow> (\<exists>s. slotAt fmt u zone lz ws we k = Inr s)) \<Longrightarrow>
     \<exists>ss. slotsLoop fmt u zone lz ws we i arr = Inr ss"
proof (induction fmt u zone lz ws we i arr rule: slotsLoop.induct)
  case (1 fmt u zone lz ws we i arr)
  show ?case
  proof (cases "i < 96")
    case False
    then show ?thesis by simp
  next
    case True
    with "1.prems" obtain s where s: "slotAt fmt u zone lz ws we i = Inr s" by auto
    have "\<exists>ss. slotsLoop fmt u zone lz ws we (Suc i) (arr @ [s]) = Inr ss"
      using "1.IH"[OF True s] "1.prems" by auto
    with True s show ?thesis by simp
  qed
qed

lemma slots_Inr:
  assumes "slots fmt u zone lz ws we = Inr ss"
  shows "length ss = 96"
    and "k < 96 \<Longrightarrow> slotAt fmt u zone lz ws we k = Inr (ss ! k)"
  using slotsLoop_Inr[of fmt u zone lz ws we 0 "[]" ss] assms
  by (auto simp: slots_def)

lemma slots_index:
  assumes "slots fmt u zone lz ws we = Inr ss"
  shows "map slot_i ss = [0..<length ss]"
proof (rule nth_equalityI)
  show "length (map slot_i ss) = length [0..<length ss]" by simp
next
  fix k assume "k < length (map slot_i ss)"
  then have k: "k < 96" using slots_Inr(1)[OF assms] by simp
  from slotAt_Inr(1)[OF slots_Inr(2)[OF assms k]] k slots_Inr(1)[OF assms]
  show "map slot_i ss ! k = [0..<length ss] ! k" by simp
qed

lemma slots_flags:
  assumes "slots fmt u zone lz ws we = Inr ss" and "s \<in> set ss"
  shows "localHourMinuteFromUtcMs fmt (slotStart s) lz = Inr (localLM s)"
    and "localHourMinuteFromUtcMs fmt (slotStart s) zone = Inr (otherLM s)"
    and "localWork s = isWork (localLM s) ws we"
    and "otherWork s = isWork (otherLM s) ws we"
    and "overlap s = (localWork s \<and> otherWork s)"
proof -
  from assms(2) obtain k where k: "k < length ss" "s = ss ! k"
    by (auto simp: in_set_conv_nth)
  with slots_Inr[OF assms(1)] have at: "slotAt fmt u zone lz ws we k = Inr s" by simp
  show "localHourMinuteFromUtcMs fmt (slotStart s) lz = Inr (localLM s)"
    and "localHourMinuteFromUtcMs fmt (slotStart s) zone = Inr (otherLM s)"
    and "localWork s = isWork (localLM s) ws we"
    and "otherWork s = isWork (otherLM s) ws we"
    and "overlap s = (localWork s \<and> otherWork s)"
    using slotAt_Inr[OF at] by simp_all
qed

lemma MeetingPanel_Inr:
  assumes "MeetingPanel fmt now zone lz ws we = Inr r"
  shows "p_utcDayStart r = utcDayStart now"
    and "slots fmt (utcDayStart now) zone lz ws we = Inr (p_slots r)"
    and "p_overlapSegments r = overlapSegments (p_slots r)"
    and "p_hasFull3h r = hasFull3h (p_overlapSegments r)"
    and "p_earliestFull3h r = earliestFull3h (p_utcDayStart r) (p_overlapSegments r)"
  using assms by (auto simp: MeetingPanel_def Let_def split: sum.splits)

section \<open>The segment reduction\<close>

lemma segInv_init: "segInv ss 0 ([], None)"
  by (simp add: segInv_def)

lemma segInv_step:
  assumes inv: "segInv ss n (segs, cur)" and i: "slot_i (ss ! n) = n"
  shows "segInv ss (Suc n) (segStep (segs, cur) (ss ! n))"
proof (cases "overlap (ss ! n)")
  case True
  show ?thesis
  proof (cases cur)
    case None
    with inv True i show ?thesis
      by (auto simp: segInv_def less_Suc_eq)
  next
    case (Some c)
    with inv True i show ?thesis
      by (auto simp: segInv_def less_Suc_eq le_Suc_eq)
  qed
next
  case False
  show ?thesis
  proof (cases cur)
    case None
    with inv False show ?thesis
      by (auto simp: segInv_def less_Suc_eq)
  next
    case (Some c)
    with inv False show ?thesis
      by (auto simp: segInv_def less_Suc_eq sorted_wrt_append)
  qed
qed

lemma segInv_foldl:
  assumes idx: "map slot_i ss = [0..<length ss]"
  shows "n \<le> length ss \<Longrightarrow> segInv ss n (foldl segStep ([], None) (take n ss))"
proof (induction n)
  case 0
  show ?case by (simp add: segInv_init)
next
  case (Suc n)
  then have n: "n < length ss" by simp
  have "slot_i (ss ! n) = map slot_i ss ! n" using n by simp
  also have "\<dots> = n" using n by (simp add: idx)
  finally have i: "slot_i (ss ! n) = n" .
  obtain segs cur where st: "foldl segStep ([], None) (take n ss) = (segs, cur)"
    by (cases "foldl segStep ([], None) (take n ss)")
  from Suc.IH n st have "segInv ss n (segs, cur)" by simp
  from segInv_step[OF this i] st n show ?case
    by (simp add: take_Suc_conv_app_nth)
qed

text \<open>What the reduction returns, for slots that carry their own positions.\<close>

lemma overlapSegments_runs:
  assumes idx: "map slot_i ss = [0..<length ss]"
  shows "sorted_wrt (\<lambda>a b. Suc (endIdx a) < startIdx b) (overlapSegments ss)"
    and "sg \<in> set (overlapSegments ss) \<Longrightarrow>
           startIdx sg \<le> endIdx sg \<and> endIdx sg < length ss \<and>
           (\<forall>k. startIdx sg \<le> k \<and> k \<le> endIdx sg \<longrightarrow> overlap (ss ! k)) \<and>
           (startIdx sg = 0 \<or> \<not> overlap (ss ! (startIdx sg - 1))) \<and>
           (Suc (endIdx sg) = length ss \<or> \<not> overlap (ss ! Suc (endIdx sg)))"
    and "k < length ss \<Longrightarrow> overlap (ss ! k) \<Longrightarrow>
           \<exists>sg \<in> set (overlapSegments ss). startIdx sg \<le> k \<and> k \<le> endIdx sg"
proof -
  obtain segs cur where st: "foldl segStep ([], None) ss = (segs, cur)"
    by (cases "foldl segStep ([], None) ss")
  from segInv_foldl[OF idx, of "length ss"] st
  have inv: "segInv ss (length ss) (segs, cur)" by simp
  show "sorted_wrt (\<lambda>a b. Suc (endIdx a) < startIdx b) (overlapSegments ss)"
    using inv st by (cases cur) (auto simp: overlapSegments_def segInv_def sorted_wrt_append)
  show "startIdx sg \<le> endIdx sg \<and> endIdx sg < length ss \<and>
           (\<forall>k. startIdx sg \<le> k \<and> k \<le> endIdx sg \<longrightarrow> overlap (ss ! k)) \<and>
           (startIdx sg = 0 \<or> \<not> overlap (ss ! (startIdx sg - 1))) \<and>
           (Suc (endIdx sg) = length ss \<or> \<not> overlap (ss ! Suc (endIdx sg)))"
    if "sg \<in> set (overlapSegments ss)"
    using inv st that by (cases cur) (auto simp: overlapSegments_def segInv_def)
  show "\<exists>sg \<in> set (overlapSegments ss). startIdx sg \<le> k \<and> k \<le> endIdx sg"
    if "k < length ss" "overlap (ss ! k)"
    using inv st that by (cases cur) (auto simp: overlapSegments_def segInv_def)
qed

lemma overlapSegments_ascending:
  assumes idx: "map slot_i ss = [0..<length ss]"
  shows "sorted_wrt (\<lambda>a b. startIdx a < startIdx b) (overlapSegments ss)"
proof -
  have "sorted_wrt (\<lambda>a b. Suc (endIdx a) < startIdx b \<and> a \<in> set (overlapSegments ss))
          (overlapSegments ss)"
    using overlapSegments_runs(1)[OF idx] by (simp add: sorted_wrt_mono_rel sorted_wrt_iff_nth_less)
  then show ?thesis
  proof (rule sorted_wrt_mono_rel[rotated])
    fix a b assume "Suc (endIdx a) < startIdx b \<and> a \<in> set (overlapSegments ss)"
    with overlapSegments_runs(2)[OF idx, of a] show "startIdx a < startIdx b" by simp
  qed
qed

lemma earliestFull3h_first:
  assumes "sorted_wrt (\<lambda>a b. startIdx a < startIdx b) segs"
  shows "(hasFull3h segs \<longrightarrow>
            (\<exists>sg \<in> set segs. 12 \<le> int (endIdx sg) - int (startIdx sg) + 1 \<and>
               earliestFull3h u segs = Some (u + int (startIdx sg) * 15 * 60 * 1000) \<and>
               (\<forall>sg' \<in> set segs. 12 \<le> int (endIdx sg') - int (startIdx sg') + 1 \<longrightarrow>
                    startIdx sg \<le> startIdx sg'))) \<and>
         (\<not> hasFull3h segs \<longrightarrow> earliestFull3h u segs = None)"
  using assms
proof (induction segs)
  case Nil
  show ?case by (simp add: hasFull3h_def)
next
  case (Cons a segs)
  then have IH: "(hasFull3h segs \<longrightarrow>
            (\<exists>sg \<in> set segs. 12 \<le> int (endIdx sg) - int (startIdx sg) + 1 \<and>
               earliestFull3h u segs = Some (u + int (startIdx sg) * 15 * 60 * 1000) \<and>
               (\<forall>sg' \<in> set segs. 12 \<le> int (endIdx sg') - int (startIdx sg') + 1 \<longrightarrow>
                    startIdx sg \<le> startIdx sg'))) \<and>
         (\<not> hasFull3h segs \<longrightarrow> earliestFull3h u segs = None)"
    and lt: "\<forall>b \<in> set segs. startIdx a < startIdx b"
    by simp_all
  show ?case
  proof (cases "12 \<le> int (endIdx a) - int (startIdx a) + 1")
    case True
    have "\<forall>sg' \<in> set (a # segs). startIdx a \<le> startIdx sg'"
      using lt by (auto intro: less_imp_le)
    with True show ?thesis by (auto simp: hasFull3h_def)
  next
    case False
    then have h: "hasFull3h (a # segs) = hasFull3h segs"
      and e: "earliestFull3h u (a # segs) = earliestFull3h u segs"
      by (simp_all add: hasFull3h_def)
    show ?thesis unfolding h e using IH False by auto
  qed
qed

section \<open>When the panel fails, and windows without working slots\<close>

lemma localHourMinuteFromUtcMs_isl:
  "isl (localHourMinuteFromUtcMs fmt t z) \<longleftrightarrow> isl (fmt z t)"
  by (simp add: localHourMinuteFromUtcMs_def split: sum.splits)

lemma slotAt_isl:
  "isl (slotAt fmt u zone lz ws we k) \<longleftrightarrow>
     isl (fmt lz (u + int k * 15 * 60 * 1000)) \<or> isl (fmt zone (u + int k * 15 * 60 * 1000))"
  by (auto simp: slotAt_def Let_def localHourMinuteFromUtcMs_def split: sum.splits)

lemma slots_isl:
  "isl (slots fmt u zone lz ws we) \<longleftrightarrow> (\<exists>k < 96. isl (slotAt fmt u zone lz ws we k))"
proof
  assume l: "isl (slots fmt u zone lz ws we)"
  show "\<exists>k < 96. isl (slotAt fmt u zone lz ws we k)"
  proof (rule ccontr)
    assume "\<not> (\<exists>k < 96. isl (slotAt fmt u zone lz ws we k))"
    then have "\<forall>k. 0 \<le> k \<and> k < 96 \<longrightarrow> (\<exists>s. slotAt fmt u zone lz ws we k = Inr s)"
      by (metis sum.collapse(2))
    from slotsLoop_ok[OF this, of "[]"] l show False by (auto simp: slots_def)
  qed
next
  assume "\<exists>k < 96. isl (slotAt fmt u zone lz ws we k)"
  then obtain k where k: "k < 96" "isl (slotAt fmt u zone lz ws we k)" by blast
  show "isl (slots fmt u zone lz ws we)"
  proof (cases "slots fmt u zone lz ws we")
    case (Inl e)
    then show ?thesis by simp
  next
    case (Inr ss)
    from slots_Inr(2)[OF Inr k(1)] k(2) show ?thesis by simp
  qed
qed

lemma MeetingPanel_isl:
  "isl (MeetingPanel fmt now zone lz ws we) \<longleftrightarrow>
     (\<exists>k < 96. isl (fmt lz (utcDayStart now + int k * 15 * 60 * 1000)) \<or>
               isl (fmt zone (utcDayStart now + int k * 15 * 60 * 1000)))"
proof -
  have "isl (MeetingPanel fmt now zone lz ws we) \<longleftrightarrow>
          isl (slots fmt (utcDayStart now) zone lz ws we)"
    by (simp add: MeetingPanel_def Let_def split: sum.splits)
  then show ?thesis unfolding slots_isl slotAt_isl .
qed

lemma foldl_segStep_no_overlap:
  "\<forall>s \<in> set ss. \<not> overlap s \<Longrightarrow> foldl segStep (segs, None) ss = (segs, None)"
  by (induction ss) auto

lemma overlapSegments_no_overlap:
  "\<forall>s \<in> set ss. \<not> overlap s \<Longrightarrow> overlapSegments ss = []"
  by (simp add: overlapSegments_def foldl_segStep_no_overlap)

section \<open>The sample host on different reference days\<close>

lemma utcDayStart_midnight: "msPerDay dvd utcDayStart now"
  by (simp add: utcDayStart_def dateUTC_def Let_def)

lemma fixedFormatter_isl: "isl (fixedFormatter z t) \<longleftrightarrow> fixedOffsetOf z = None"
  by (simp add: fixedFormatter_def Let_def split: option.splits)

lemma fixedFormatter_day_periodic:
  assumes "msPerDay dvd u - u'"
  shows "localHourMinuteFromUtcMs fixedFormatter (u + x) z
           = localHourMinuteFromUtcMs fixedFormatter (u' + x) z"
proof (cases "fixedOffsetOf z")
  case None
  then show ?thesis by (simp add: localHourMinuteFromUtcMs_def fixedFormatter_def)
next
  case (Some off)
  have "msPerDay dvd (u + x + off * 60000) - (u' + x + off * 60000)"
    using assms by (simp add: algebra_simps)
  then have "(u + x + off * 60000) mod msPerDay = (u' + x + off * 60000) mod msPerDay"
    by (simp add: mod_eq_dvd_iff)
  then show ?thesis
    using Some by (simp add: localHourMinuteFromUtcMs_def fixedFormatter_def Let_def)
qed

lemma slotAt_fixed_shift:
  assumes "msPerDay dvd u - u'"
  shows "slotAt fixedFormatter u z lz ws we k
           = map_sum id (shiftSlot (u - u')) (slotAt fixedFormatter u' z lz ws we k)"
proof -
  have l: "localHourMinuteFromUtcMs fixedFormatter (u + int k * 15 * 60 * 1000) y
           = localHourMinuteFromUtcMs fixedFormatter (u' + int k * 15 * 60 * 1000) y" for y
    using fixedFormatter_day_periodic[OF assms, of "int k * 15 * 60 * 1000" y]
    by (simp add: algebra_simps)
  show ?thesis
    unfolding slotAt_def Let_def l
    by (simp add: shiftSlot_def split: sum.splits)
qed

lemma shiftSlot_fields:
  "localLM (shiftSlot d s) = localLM s" "otherLM (shiftSlot d s) = otherLM s"
  by (simp_all add: shiftSlot_def)

lemma segStep_shiftSlot: "segStep st (shiftSlot d s) = segStep st s"
  by (cases st) (simp add: shiftSlot_def split: option.splits)

lemma foldl_segStep_shiftSlot:
  "foldl segStep st (map (shiftSlot d) ss) = foldl segStep st ss"
  by (induction ss arbitrary: st) (simp_all add: segStep_shiftSlot)

lemma overlapSegments_shiftSlot:
  "overlapSegments (map (shiftSlot d) ss) = overlapSegments ss"
  by (simp add: overlapSegments_def foldl_segStep_shiftSlot)

lemma earliestFull3h_shift:
  "earliestFull3h (u + d) segs = map_option (\<lambda>t. t + d) (earliestFull3h u segs)"
  by (induction segs) simp_all

text \<open>On the sample host the slots of two reference days differ by the shift only.\<close>

lemma slots_fixed_shift:
  assumes d: "msPerDay dvd u - u'"
      and s': "slots fixedFormatter u' z lz ws we = Inr ss'"
  shows "slots fixedFormatter u z lz ws we = Inr (map (shiftSlot (u - u')) ss')"
proof -
  have at: "slotAt fixedFormatter u z lz ws we k = Inr (shiftSlot (u - u') (ss' ! k))"
    if "k < 96" for k
    unfolding slotAt_fixed_shift[OF d] slots_Inr(2)[OF s' that] by simp
  then have "\<not> isl (slots fixedFormatter u z lz ws we)"
    unfolding slots_isl by auto
  then obtain ss where ss: "slots fixedFormatter u z lz ws we = Inr ss"
    by (metis sum.collapse(2))
  have "ss = map (shiftSlot (u - u')) ss'"
  proof (rule nth_equalityI)
    show "length ss = length (map (shiftSlot (u - u')) ss')"
      using slots_Inr(1)[OF ss] slots_Inr(1)[OF s'] by simp
  next
    fix k assume "k < length ss"
    then have k: "k < 96" using slots_Inr(1)[OF ss] by simp
    from slots_Inr(2)[OF ss k] at[OF k] k slots_Inr(1)[OF s']
    show "ss ! k = map (shiftSlot (u - u')) ss' ! k" by simp
  qed
  with ss show ?thesis by simp
qed

lemma MeetingPanel_fixed_shift:
  assumes "MeetingPanel fixedFormatter now' z lz ws we = Inr r'"
  shows "\<exists>r. MeetingPanel fixedFormatter now z lz ws we = Inr r \<and>
             p_slots r = map (shiftSlot (utcDayStart now - utcDayStart now')) (p_slots r') \<and>
             p_overlapSegments r = p_overlapSegments r' \<and>
             p_hasFull3h r = p_hasFull3h r' \<and>
             p_earliestFull3h r =
               map_option (\<lambda>t. t + (utcDayStart now - utcDayStart now')) (p_earliestFull3h r')"
proof -
  let ?u = "utcDayStart now" and ?u' = "utcDayStart now'"
  note m' = MeetingPanel_Inr[OF assms]
  have d: "msPerDay dvd ?u - ?u'"
    using utcDayStart_midnight[of now] utcDayStart_midnight[of now'] by (rule dvd_diff)
  note sl = slots_fixed_shift[OF d m'(2)]
  have e: "earliestFull3h ?u segs = map_option (\<lambda>t. t + (?u - ?u')) (earliestFull3h ?u' segs)"
    for segs
    using earliestFull3h_shift[of ?u' "?u - ?u'" segs] by simp
  show ?thesis
    unfolding MeetingPanel_def Let_def sl
    using m' e by (simp add: overlapSegments_shiftSlot)
qed

section \<open>The zone list\<close>

lemma tzOffsetMinutes_isl: "isl (tzOffsetMinutes fmt z now) \<longleftrightarrow> isl (fmt z now)"
  by (simp add: tzOffsetMinutes_def Let_def split: sum.splits)

lemma mapZones_Inr:
  "mapZones fmt now zs = Inr es \<Longrightarrow>
     es = map (zoneEntryOf fmt now) zs \<and> (\<forall>z \<in> set zs. \<not> isl (tzOffsetMinutes fmt z now))"
  by (induction zs arbitrary: es) (auto simp: zoneEntryOf_def split: sum.splits)

lemma mapZones_ok:
  "\<forall>z \<in> set zs. \<not> isl (tzOffsetMinutes fmt z now) \<Longrightarrow>
     mapZones fmt now zs = Inr (map (zoneEntryOf fmt now) zs)"
  by (induction zs) (auto simp: zoneEntryOf_def split: sum.splits)

lemma mapZones_isl:
  "isl (mapZones fmt now zs) \<longleftrightarrow> (\<exists>z \<in> set zs. isl (tzOffsetMinutes fmt z now))"
proof (cases "mapZones fmt now zs")
  case (Inl e)
  then show ?thesis using mapZones_ok[of zs fmt now] by auto
next
  case (Inr es)
  then show ?thesis using mapZones_Inr[OF Inr] by auto
qed

lemma mset_insertSorted: "mset (insertSorted cmp x ys) = add_mset x (mset ys)"
  by (induction ys) auto

lemma mset_arraySort: "mset (arraySort cmp xs) = mset xs"
  by (induction xs) (auto simp: arraySort_def mset_insertSorted)








lemma buildZonesList_Inr:
  assumes "buildZonesList sv fmt lc now = Inr arr"
  shows "arr = arraySort (compareZones lc) (map (zoneEntryOf fmt now) (getAllTimeZones sv))"
    and "\<forall>z \<in> set (getAllTimeZones sv). \<not> isl (tzOffsetMinutes fmt z now)"
  using assms mapZones_Inr[of fmt now "getAllTimeZones sv"]
  by (auto simp: buildZonesList_def Let_def split: sum.splits)


lemma buildZonesList_isl:
  "isl (buildZonesList sv fmt lc now) \<longleftrightarrow>
     (\<exists>z \<in> set (getAllTimeZones sv). isl (tzOffsetMinutes fmt z now))"
  using mapZones_isl[of fmt now "getAllTimeZones sv"]
  by (auto simp: buildZonesList_def Let_def split: sum.splits)



section \<open>Concrete runs on the sample host\<close>

lemma sample_utc_utc:
  "panelSummary (MeetingPanel fixedFormatter sampleNow ''UTC'' ''UTC'' 9 17) =
     Some (1793577600000, 96, [\<lparr>startIdx = 36, endIdx = 67\<rparr>], True, Some 1793610000000)"
  by code_simp

lemma sample_utc_kolkata:
  "panelSummary (MeetingPanel fixedFormatter sampleNow ''Asia/Kolkata'' ''UTC'' 9 17) =
     Some (1793577600000, 96, [\<lparr>startIdx = 36, endIdx = 45\<rparr>], False, None)"
  by code_simp

lemma sample_kolkata_utc:
  "panelSummary (MeetingPanel fixedFormatter sampleNow ''UTC'' ''Asia/Kolkata'' 9 17) =
     Some (1793577600000, 96, [\<lparr>startIdx = 36, endIdx = 45\<rparr>], False, None)"
  by code_simp

lemma sample_h24:
  "panelSummary (MeetingPanel h24Formatter sampleNow ''UTC'' ''UTC'' 22 24) =
     Some (1793577600000, 96,
           [\<lparr>startIdx = 0, endIdx = 0\<rparr>, \<lparr>startIdx = 88, endIdx = 95\<rparr>], False, None)"
  by code_simp

lemma sample_full_day:
  "panelSummary (MeetingPanel fixedFormatter sampleNow ''UTC'' ''UTC'' 0 24) =
     Some (1793577600000, 96, [\<lparr>startIdx = 0, endIdx = 95\<rparr>], True, Some 1793577600000)"
  by code_simp

lemma panelSummary_Some:
  assumes "panelSummary x = Some (u, n, segs, b, e)"
  shows "\<not> isl x" and "x = Inr (projr x)" and "p_utcDayStart (projr x) = u"
    and "length (p_slots (projr x)) = n" and "p_overlapSegments (projr x) = segs"
    and "p_hasFull3h (projr x) = b" and "p_earliestFull3h (projr x) = e"
  using assms by (cases x; simp add: panelSummary_def)+

lemma sample_utc_kolkata_slots:
  "localLM (p_slots (projr (MeetingPanel fixedFormatter sampleNow ''Asia/Kolkata'' ''UTC'' 9 17)) ! 36)
     = \<lparr>hm_h = 9, hm_m = 0\<rparr>"
  "otherLM (p_slots (projr (MeetingPanel fixedFormatter sampleNow ''Asia/Kolkata'' ''UTC'' 9 17)) ! 36)
     = \<lparr>hm_h = 14, hm_m = 30\<rparr>"
  "localLM (p_slots (projr (MeetingPanel fixedFormatter sampleNow ''Asia/Kolkata'' ''UTC'' 9 17)) ! 45)
     = \<lparr>hm_h = 11, hm_m = 15\<rparr>"
  "otherLM (p_slots (projr (MeetingPanel fixedFormatter sampleNow ''Asia/Kolkata'' ''UTC'' 9 17)) ! 45)
     = \<lparr>hm_h = 16, hm_m = 45\<rparr>"
proof -
  let ?X = "MeetingPanel fixedFormatter sampleNow ''Asia/Kolkata'' ''UTC'' 9 17"
  note s = panelSummary_Some[OF sample_utc_kolkata]
  note sl = MeetingPanel_Inr(2)[OF s(2)]
  have a: "map_sum id (\<lambda>s. (localLM s, otherLM s))
             (slotAt fixedFormatter (utcDayStart sampleNow) ''Asia/Kolkata'' ''UTC'' 9 17 36)
           = Inr (\<lparr>hm_h = 9, hm_m = 0\<rparr>, \<lparr>hm_h = 14, hm_m = 30\<rparr>)"
    by code_simp
  have b: "map_sum id (\<lambda>s. (localLM s, otherLM s))
             (slotAt fixedFormatter (utcDayStart sampleNow) ''Asia/Kolkata'' ''UTC'' 9 17 45)
           = Inr (\<lparr>hm_h = 11, hm_m = 15\<rparr>, \<lparr>hm_h = 16, hm_m = 45\<rparr>)"
    by code_simp
  from a show "localLM (p_slots (projr ?X) ! 36) = \<lparr>hm_h = 9, hm_m = 0\<rparr>"
    and "otherLM (p_slots (projr ?X) ! 36) = \<lparr>hm_h = 14, hm_m = 30\<rparr>"
    unfolding slots_Inr(2)[OF sl, of 36, simplified] by simp_all
  from b show "localLM (p_slots (projr ?X) ! 45) = \<lparr>hm_h = 11, hm_m = 15\<rparr>"
    and "otherLM (p_slots (projr ?X) ! 45) = \<lparr>hm_h = 16, hm_m = 45\<rparr>"
    unfolding slots_Inr(2)[OF sl, of 45, simplified] by simp_all
qed

lemma sample_kolkata_utc_slots:
  "otherLM (p_slots (projr (MeetingPanel fixedFormatter sampleNow ''UTC'' ''Asia/Kolkata'' 9 17)) ! 36)
     = \<lparr>hm_h = 9, hm_m = 0\<rparr>"
  "localLM (p_slots (projr (MeetingPanel fixedFormatter sampleNow ''UTC'' ''Asia/Kolkata'' 9 17)) ! 36)
     = \<lparr>hm_h = 14, hm_m = 30\<rparr>"
  "otherLM (p_slots (projr (MeetingPanel fixedFormatter sampleNow ''UTC'' ''Asia/Kolkata'' 9 17)) ! 45)
     = \<lparr>hm_h = 11, hm_m = 15\<rparr>"
  "localLM (p_slots (projr (MeetingPanel fixedFormatter sampleNow ''UTC'' ''Asia/Kolkata'' 9 17)) ! 45)
     = \<lparr>hm_h = 16, hm_m = 45\<rparr>"
proof -
  let ?X = "MeetingPanel fixedFormatter sampleNow ''UTC'' ''Asia/Kolkata'' 9 17"
  note s = panelSummary_Some[OF sample_kolkata_utc]
  note sl = MeetingPanel_Inr(2)[OF s(2)]
  have a: "map_sum id (\<lambda>s. (localLM s, otherLM s))
             (slotAt fixedFormatter (utcDayStart sampleNow) ''UTC'' ''Asia/Kolkata'' 9 17 36)
           = Inr (\<lparr>hm_h = 14, hm_m = 30\<rparr>, \<lparr>hm_h = 9, hm_m = 0\<rparr>)"
    by code_simp
  have b: "map_sum id (\<lambda>s. (localLM s, otherLM s))
             (slotAt fixedFormatter (utcDayStart sampleNow) ''UTC'' ''Asia/Kolkata'' 9 17 45)
           = Inr (\<lparr>hm_h = 16, hm_m = 45\<rparr>, \<lparr>hm_h = 11, hm_m = 15\<rparr>)"
    by code_simp
  from a show "otherLM (p_slots (projr ?X) ! 36) = \<lparr>hm_h = 9, hm_m = 0\<rparr>"
    and "localLM (p_slots (projr ?X) ! 36) = \<lparr>hm_h = 14, hm_m = 30\<rparr>"
    unfolding slots_Inr(2)[OF sl, of 36, simplified] by simp_all
  from b show "otherLM (p_slots (projr ?X) ! 45) = \<lparr>hm_h = 11, hm_m = 15\<rparr>"
    and "localLM (p_slots (projr ?X) ! 45) = \<lparr>hm_h = 16, hm_m = 45\<rparr>"
    unfolding slots_Inr(2)[OF sl, of 45, simplified] by simp_all
qed

section \<open>The claims about the overlap computation\<close>

text \<open>
  Claim C1: for slots that carry their positions as \<open>slot_i\<close> (as the slot loop
  builds them, lemma \<open>slots_index\<close>), the segments of the reduction are the maximal
  runs of overlapping slots: any two are disjoint, two consecutive ones have a
  non-overlapping slot strictly between them, start indices ascend, the indices they
  cover are exactly those of the slots whose overlap flag is true, and no segment can be
  extended to the left or to the right.
\<close>

theorem overlapSegments_are_maximal_runs:
  assumes idx: "map slot_i ss = [0..<length ss]"
  shows "(\<forall>i j. i < j \<and> j < length (overlapSegments ss) \<longrightarrow>
            {startIdx (overlapSegments ss ! i)..endIdx (overlapSegments ss ! i)} \<inter>
            {startIdx (overlapSegments ss ! j)..endIdx (overlapSegments ss ! j)} = {}) \<and>
         (\<forall>j. Suc j < length (overlapSegments ss) \<longrightarrow>
            (\<exists>k. endIdx (overlapSegments ss ! j) < k \<and>
                 k < startIdx (overlapSegments ss ! Suc j) \<and> \<not> overlap (ss ! k))) \<and>
         sorted_wrt (\<lambda>a b. startIdx a < startIdx b) (overlapSegments ss) \<and>
         (\<Union>sg \<in> set (overlapSegments ss). {startIdx sg..endIdx sg})
            = {k. k < length ss \<and> overlap (ss ! k)} \<and>
         (\<forall>sg \<in> set (overlapSegments ss).
            startIdx sg \<le> endIdx sg \<and>
            (startIdx sg = 0 \<or> \<not> overlap (ss ! (startIdx sg - 1))) \<and>
            (Suc (endIdx sg) = length ss \<or> \<not> overlap (ss ! Suc (endIdx sg))))"
proof (intro conjI)
  let ?F = "overlapSegments ss"
  note sorted = overlapSegments_runs(1)[OF idx]
  note run = overlapSegments_runs(2)[OF idx]
  note cover = overlapSegments_runs(3)[OF idx]
  have apart: "Suc (endIdx (?F ! i)) < startIdx (?F ! j)" if "i < j" "j < length ?F" for i j
    using sorted that by (simp add: sorted_wrt_iff_nth_less)
  show "\<forall>i j. i < j \<and> j < length ?F \<longrightarrow>
          {startIdx (?F ! i)..endIdx (?F ! i)} \<inter> {startIdx (?F ! j)..endIdx (?F ! j)} = {}"
  proof (intro allI impI)
    fix i j assume "i < j \<and> j < length ?F"
    then have "Suc (endIdx (?F ! i)) < startIdx (?F ! j)" using apart by simp
    then show "{startIdx (?F ! i)..endIdx (?F ! i)} \<inter> {startIdx (?F ! j)..endIdx (?F ! j)} = {}"
      by auto
  qed
  show "\<forall>j. Suc j < length ?F \<longrightarrow>
          (\<exists>k. endIdx (?F ! j) < k \<and> k < startIdx (?F ! Suc j) \<and> \<not> overlap (ss ! k))"
  proof (intro allI impI)
    fix j assume j: "Suc j < length ?F"
    have a: "Suc (endIdx (?F ! j)) < startIdx (?F ! Suc j)" using apart[of j "Suc j"] j by simp
    have "?F ! Suc j \<in> set ?F" using j by simp
    from run[OF this] have b: "startIdx (?F ! Suc j) < length ss" by simp
    have "?F ! j \<in> set ?F" using j by simp
    from run[OF this] a b have "\<not> overlap (ss ! Suc (endIdx (?F ! j)))" by auto
    with a show "\<exists>k. endIdx (?F ! j) < k \<and> k < startIdx (?F ! Suc j) \<and> \<not> overlap (ss ! k)"
      by (intro exI[of _ "Suc (endIdx (?F ! j))"]) simp
  qed
  show "sorted_wrt (\<lambda>a b. startIdx a < startIdx b) ?F"
    by (rule overlapSegments_ascending[OF idx])
  show "(\<Union>sg \<in> set ?F. {startIdx sg..endIdx sg}) = {k. k < length ss \<and> overlap (ss ! k)}"
  proof (intro set_eqI iffI)
    fix k assume "k \<in> (\<Union>sg \<in> set ?F. {startIdx sg..endIdx sg})"
    then obtain sg where sg: "sg \<in> set ?F" "startIdx sg \<le> k" "k \<le> endIdx sg" by auto
    from run[OF sg(1)] sg(2,3) show "k \<in> {k. k < length ss \<and> overlap (ss ! k)}" by auto
  next
    fix k assume "k \<in> {k. k < length ss \<and> overlap (ss ! k)}"
    then have "k < length ss" "overlap (ss ! k)" by simp_all
    from cover[OF this] show "k \<in> (\<Union>sg \<in> set ?F. {startIdx sg..endIdx sg})" by auto
  qed
  show "\<forall>sg \<in> set ?F. startIdx sg \<le> endIdx sg \<and>
          (startIdx sg = 0 \<or> \<not> overlap (ss ! (startIdx sg - 1))) \<and>
          (Suc (endIdx sg) = length ss \<or> \<not> overlap (ss ! Suc (endIdx sg)))"
    using run by blast
qed

theorem overlapSegments_are_maximal_runs_witness:
  "map slot_i (p_slots (projr (MeetingPanel h24Formatter sampleNow ''UTC'' ''UTC'' 22 24)))
     = [0..<length (p_slots (projr (MeetingPanel h24Formatter sampleNow ''UTC'' ''UTC'' 22 24)))] \<and>
   overlapSegments (p_slots (projr (MeetingPanel h24Formatter sampleNow ''UTC'' ''UTC'' 22 24)))
     = [\<lparr>startIdx = 0, endIdx = 0\<rparr>, \<lparr>startIdx = 88, endIdx = 95\<rparr>] \<and>
   {k. k < length (p_slots (projr (MeetingPanel h24Formatter sampleNow ''UTC'' ''UTC'' 22 24))) \<and>
       overlap (p_slots (projr (MeetingPanel h24Formatter sampleNow ''UTC'' ''UTC'' 22 24)) ! k)}
     = {0} \<union> {88..95}"
proof -
  let ?X = "MeetingPanel h24Formatter sampleNow ''UTC'' ''UTC'' 22 24"
  let ?ss = "p_slots (projr ?X)"
  note s = panelSummary_Some[OF sample_h24]
  have idx: "map slot_i ?ss = [0..<length ?ss]"
    by (rule slots_index[OF MeetingPanel_Inr(2)[OF s(2)]])
  have segs: "overlapSegments ?ss = [\<lparr>startIdx = 0, endIdx = 0\<rparr>, \<lparr>startIdx = 88, endIdx = 95\<rparr>]"
    using MeetingPanel_Inr(3)[OF s(2)] s(5) by simp
  have "(\<Union>sg \<in> set (overlapSegments ?ss). {startIdx sg..endIdx sg})
          = {k. k < length ?ss \<and> overlap (?ss ! k)}"
    using overlapSegments_are_maximal_runs[OF idx] by blast
  then have "{k. k < length ?ss \<and> overlap (?ss ! k)} = {0} \<union> {88..95}"
    unfolding segs by simp
  with idx segs show ?thesis by (intro conjI)
qed

text \<open>
  Claim C2: the flag \<open>hasFull3h\<close> of a panel is true if and only if some segment
  lasts \<open>(endIdx - startIdx + 1) * 15\<close> minutes with that duration at least 180.
\<close>

theorem hasFull3h_iff_segment_of_180_minutes:
  assumes "MeetingPanel fmt now zone lz ws we = Inr r"
  shows "p_hasFull3h r \<longleftrightarrow>
           (\<exists>sg \<in> set (p_overlapSegments r).
              (int (endIdx sg) - int (startIdx sg) + 1) * 15 \<ge> 180)"
proof -
  have "p_hasFull3h r \<longleftrightarrow>
          (\<exists>sg \<in> set (p_overlapSegments r). int (endIdx sg) - int (startIdx sg) + 1 \<ge> 12)"
    using MeetingPanel_Inr(4)[OF assms] by (simp add: hasFull3h_def list_ex_iff)
  also have "\<dots> \<longleftrightarrow> (\<exists>sg \<in> set (p_overlapSegments r).
              (int (endIdx sg) - int (startIdx sg) + 1) * 15 \<ge> 180)"
    by (rule bex_cong) auto
  finally show ?thesis .
qed

theorem hasFull3h_iff_segment_of_180_minutes_witness:
  "\<not> isl (MeetingPanel fixedFormatter sampleNow ''UTC'' ''UTC'' 9 17) \<and>
   p_hasFull3h (projr (MeetingPanel fixedFormatter sampleNow ''UTC'' ''UTC'' 9 17)) \<and>
   (\<exists>sg \<in> set (p_overlapSegments
                 (projr (MeetingPanel fixedFormatter sampleNow ''UTC'' ''UTC'' 9 17))).
      (int (endIdx sg) - int (startIdx sg) + 1) * 15 \<ge> 180)"
proof -
  let ?X = "MeetingPanel fixedFormatter sampleNow ''UTC'' ''UTC'' 9 17"
  note s = panelSummary_Some[OF sample_utc_utc]
  have h: "p_hasFull3h (projr ?X)" using s(6) by simp
  from hasFull3h_iff_segment_of_180_minutes[OF s(2)] s(1) h show ?thesis by blast
qed

text \<open>
  Claim C3: when the flag is true, the reported start is the UTC start of a qualifying
  segment whose start index is least among the qualifying segments, however long the
  others are; when it is false, nothing is reported.
\<close>

theorem earliestFull3h_is_earliest_qualifying_start:
  assumes "MeetingPanel fmt now zone lz ws we = Inr r"
  shows "(p_hasFull3h r \<longrightarrow>
            (\<exists>sg \<in> set (p_overlapSegments r).
               180 \<le> (int (endIdx sg) - int (startIdx sg) + 1) * 15 \<and>
               p_earliestFull3h r = Some (slotStart (p_slots r ! startIdx sg)) \<and>
               slotStart (p_slots r ! startIdx sg)
                 = p_utcDayStart r + int (startIdx sg) * (15 * 60 * 1000) \<and>
               (\<forall>sg' \<in> set (p_overlapSegments r).
                    180 \<le> (int (endIdx sg') - int (startIdx sg') + 1) * 15 \<longrightarrow>
                    startIdx sg \<le> startIdx sg'))) \<and>
         (\<not> p_hasFull3h r \<longrightarrow> p_earliestFull3h r = None)"
proof -
  let ?ss = "p_slots r" and ?u = "p_utcDayStart r"
  note m = MeetingPanel_Inr[OF assms]
  have sl: "slots fmt ?u zone lz ws we = Inr ?ss" using m(1,2) by simp
  have idx: "map slot_i ?ss = [0..<length ?ss]" by (rule slots_index[OF sl])
  have asc: "sorted_wrt (\<lambda>a b. startIdx a < startIdx b) (p_overlapSegments r)"
    unfolding m(3) by (rule overlapSegments_ascending[OF idx])
  note first = earliestFull3h_first[OF asc, of ?u, folded m(4) m(5)]
  have start: "slotStart (?ss ! startIdx sg) = ?u + int (startIdx sg) * (15 * 60 * 1000)"
    if "sg \<in> set (p_overlapSegments r)" for sg
  proof -
    from that overlapSegments_runs(2)[OF idx, of sg] slots_Inr(1)[OF sl]
    have "startIdx sg < 96" by (simp add: m(3))
    from slotAt_Inr(2)[OF slots_Inr(2)[OF sl this]] show ?thesis by simp
  qed
  show ?thesis
  proof (intro conjI impI)
    assume "p_hasFull3h r"
    with first obtain sg where sg: "sg \<in> set (p_overlapSegments r)"
      "12 \<le> int (endIdx sg) - int (startIdx sg) + 1"
      "p_earliestFull3h r = Some (?u + int (startIdx sg) * 15 * 60 * 1000)"
      "\<forall>sg' \<in> set (p_overlapSegments r).
          12 \<le> int (endIdx sg') - int (startIdx sg') + 1 \<longrightarrow> startIdx sg \<le> startIdx sg'"
      by blast
    have "180 \<le> (int (endIdx sg) - int (startIdx sg) + 1) * 15" using sg(2) by simp
    moreover have "p_earliestFull3h r = Some (slotStart (?ss ! startIdx sg))"
      using sg(3) start[OF sg(1)] by simp
    moreover have "\<forall>sg' \<in> set (p_overlapSegments r).
        180 \<le> (int (endIdx sg') - int (startIdx sg') + 1) * 15 \<longrightarrow> startIdx sg \<le> startIdx sg'"
      using sg(4) by simp
    ultimately show "\<exists>sg \<in> set (p_overlapSegments r).
               180 \<le> (int (endIdx sg) - int (startIdx sg) + 1) * 15 \<and>
               p_earliestFull3h r = Some (slotStart (p_slots r ! startIdx sg)) \<and>
               slotStart (p_slots r ! startIdx sg)
                 = p_utcDayStart r + int (startIdx sg) * (15 * 60 * 1000) \<and>
               (\<forall>sg' \<in> set (p_overlapSegments r).
                    180 \<le> (int (endIdx sg') - int (startIdx sg') + 1) * 15 \<longrightarrow>
                    startIdx sg \<le> startIdx sg')"
      using sg(1) start[OF sg(1)] by blast
  next
    assume "\<not> p_hasFull3h r"
    with first show "p_earliestFull3h r = None" by blast
  qed
qed

theorem earliestFull3h_is_earliest_qualifying_start_witness:
  "\<not> isl (MeetingPanel fixedFormatter sampleNow ''UTC'' ''UTC'' 9 17) \<and>
   p_hasFull3h (projr (MeetingPanel fixedFormatter sampleNow ''UTC'' ''UTC'' 9 17)) \<and>
   p_overlapSegments (projr (MeetingPanel fixedFormatter sampleNow ''UTC'' ''UTC'' 9 17))
     = [\<lparr>startIdx = 36, endIdx = 67\<rparr>] \<and>
   p_earliestFull3h (projr (MeetingPanel fixedFormatter sampleNow ''UTC'' ''UTC'' 9 17))
     = Some (slotStart (p_slots (projr (MeetingPanel fixedFormatter sampleNow ''UTC'' ''UTC'' 9 17)) ! 36)) \<and>
   slotStart (p_slots (projr (MeetingPanel fixedFormatter sampleNow ''UTC'' ''UTC'' 9 17)) ! 36)
     = 1793577600000 + 36 * (15 * 60 * 1000)"
proof -
  let ?X = "MeetingPanel fixedFormatter sampleNow ''UTC'' ''UTC'' 9 17"
  note s = panelSummary_Some[OF sample_utc_utc]
  have h: "p_hasFull3h (projr ?X)" using s(6) by simp
  from earliestFull3h_is_earliest_qualifying_start[OF s(2)] h
  have "\<exists>sg \<in> set (p_overlapSegments (projr ?X)).
          p_earliestFull3h (projr ?X) = Some (slotStart (p_slots (projr ?X) ! startIdx sg)) \<and>
          slotStart (p_slots (projr ?X) ! startIdx sg)
            = p_utcDayStart (projr ?X) + int (startIdx sg) * (15 * 60 * 1000)"
    by blast
  then have "p_earliestFull3h (projr ?X) = Some (slotStart (p_slots (projr ?X) ! 36))"
    and "slotStart (p_slots (projr ?X) ! 36) = 1793577600000 + 36 * (15 * 60 * 1000)"
    unfolding s(5) s(3) by simp_all
  with s(1) h s(5) show ?thesis by (intro conjI)
qed




text \<open>
  Claim C5: a panel has \<open>1440 div 15 = 96\<close> slots; slot \<open>k\<close> starts at the
  reference midnight plus \<open>k\<close> quarters of an hour and ends a quarter later, so starts
  increase strictly, each slot ends where the next starts, the first starts at the
  reference midnight (a whole number of days since the epoch) and the last ends a day
  later, and every instant of that day lies in exactly one slot. The panel is computed
  whenever the formatter knows both zones at the 96 slot starts.
\<close>

theorem slots_tile_reference_day:
  "(MeetingPanel fmt now zone lz ws we = Inr r \<longrightarrow>
      length (p_slots r) = 1440 div 15 \<and>
      (\<forall>k < 96. slotStart (p_slots r ! k) = p_utcDayStart r + int k * (15 * 60 * 1000) \<and>
                 slotEnd (p_slots r ! k) = slotStart (p_slots r ! k) + 15 * 60 * 1000) \<and>
      (\<forall>j k. j < k \<and> k < 96 \<longrightarrow> slotStart (p_slots r ! j) < slotStart (p_slots r ! k)) \<and>
      (\<forall>k. Suc k < 96 \<longrightarrow> slotEnd (p_slots r ! k) = slotStart (p_slots r ! Suc k)) \<and>
      slotStart (p_slots r ! 0) = p_utcDayStart r \<and>
      slotEnd (p_slots r ! 95) = p_utcDayStart r + msPerDay \<and>
      p_utcDayStart r mod msPerDay = 0 \<and>
      (\<forall>t. p_utcDayStart r \<le> t \<and> t < p_utcDayStart r + msPerDay \<longrightarrow>
           (\<exists>!k. k < 96 \<and> slotStart (p_slots r ! k) \<le> t \<and> t < slotEnd (p_slots r ! k)))) \<and>
   ((\<forall>k < 96. \<not> isl (fmt lz (utcDayStart now + int k * 15 * 60 * 1000)) \<and>
               \<not> isl (fmt zone (utcDayStart now + int k * 15 * 60 * 1000))) \<longrightarrow>
      (\<exists>r. MeetingPanel fmt now zone lz ws we = Inr r))"
proof (intro conjI impI)
  assume a: "MeetingPanel fmt now zone lz ws we = Inr r"
  let ?ss = "p_slots r" and ?u = "p_utcDayStart r"
  have sl: "slots fmt ?u zone lz ws we = Inr ?ss"
    using MeetingPanel_Inr(1,2)[OF a] by simp
  show len: "length ?ss = 1440 div 15" using slots_Inr(1)[OF sl] by simp
  have st: "slotStart (?ss ! k) = ?u + int k * 900000" if "k < 96" for k
    using slotAt_Inr(2)[OF slots_Inr(2)[OF sl that]] by simp
  have en: "slotEnd (?ss ! k) = ?u + int k * 900000 + 900000" if "k < 96" for k
    using slotAt_Inr(2,3)[OF slots_Inr(2)[OF sl that]] by simp
  show "\<forall>k < 96. slotStart (?ss ! k) = ?u + int k * (15 * 60 * 1000) \<and>
                 slotEnd (?ss ! k) = slotStart (?ss ! k) + 15 * 60 * 1000"
    using st en by simp
  show "\<forall>j k. j < k \<and> k < 96 \<longrightarrow> slotStart (?ss ! j) < slotStart (?ss ! k)"
    using st by simp
  show "\<forall>k. Suc k < 96 \<longrightarrow> slotEnd (?ss ! k) = slotStart (?ss ! Suc k)"
    using st en by simp
  show "slotStart (?ss ! 0) = ?u" using st[of 0] by simp
  show "slotEnd (?ss ! 95) = ?u + msPerDay" using en[of 95] by (simp add: msPerDay_def)
  show "?u mod msPerDay = 0"
    using utcDayStart_midnight[of now] MeetingPanel_Inr(1)[OF a] by simp
  show "\<forall>t. ?u \<le> t \<and> t < ?u + msPerDay \<longrightarrow>
           (\<exists>!k. k < 96 \<and> slotStart (?ss ! k) \<le> t \<and> t < slotEnd (?ss ! k))"
  proof (intro allI impI)
    fix t assume t: "?u \<le> t \<and> t < ?u + msPerDay"
    define d where "d = (t - ?u) div 900000"
    define m where "m = (t - ?u) mod 900000"
    have dm: "t - ?u = d * 900000 + m" by (simp add: d_def m_def)
    have m0: "0 \<le> m" and m1: "m < 900000" by (simp_all add: m_def)
    have tu: "0 \<le> t - ?u" "t - ?u < 96 * 900000" using t by (simp_all add: msPerDay_def)
    have d0: "0 \<le> d" using dm m1 tu(1) by linarith
    have d96: "d < 96" using dm m0 tu(2) by linarith
    define q where "q = nat d"
    have qk: "q < 96" using d0 d96 by (simp add: q_def)
    have iq: "int q = d" using d0 by (simp add: q_def)
    have in_q: "slotStart (?ss ! q) \<le> t \<and> t < slotEnd (?ss ! q)"
      using st[OF qk] en[OF qk] iq dm m0 m1 by linarith
    have uniq: "k = q" if "k < 96 \<and> slotStart (?ss ! k) \<le> t \<and> t < slotEnd (?ss ! k)" for k
    proof -
      from that st[of k] en[of k]
      have "int k * 900000 \<le> t - ?u" "t - ?u < int k * 900000 + 900000" by simp_all
      with dm m0 m1 have "d = int k" by linarith
      with iq show ?thesis by simp
    qed
    show "\<exists>!k. k < 96 \<and> slotStart (?ss ! k) \<le> t \<and> t < slotEnd (?ss ! k)"
      using qk in_q uniq by blast
  qed
next
  assume ok: "\<forall>k < 96. \<not> isl (fmt lz (utcDayStart now + int k * 15 * 60 * 1000)) \<and>
               \<not> isl (fmt zone (utcDayStart now + int k * 15 * 60 * 1000))"
  have "\<exists>s. slotAt fmt (utcDayStart now) zone lz ws we k = Inr s" if "k < 96" for k
  proof -
    from ok that obtain p q' where
      "fmt lz (utcDayStart now + int k * 15 * 60 * 1000) = Inr p"
      "fmt zone (utcDayStart now + int k * 15 * 60 * 1000) = Inr q'"
      by (metis sum.collapse(2))
    then show ?thesis by (rule slotAt_ok)
  qed
  then have "\<exists>ss. slots fmt (utcDayStart now) zone lz ws we = Inr ss"
    unfolding slots_def by (intro slotsLoop_ok) simp
  then show "\<exists>r. MeetingPanel fmt now zone lz ws we = Inr r"
    by (auto simp: MeetingPanel_def Let_def)
qed

theorem slots_tile_reference_day_witness:
  "\<not> isl (MeetingPanel fixedFormatter sampleNow ''UTC'' ''UTC'' 9 17) \<and>
   length (p_slots (projr (MeetingPanel fixedFormatter sampleNow ''UTC'' ''UTC'' 9 17))) = 96 \<and>
   slotStart (p_slots (projr (MeetingPanel fixedFormatter sampleNow ''UTC'' ''UTC'' 9 17)) ! 0)
     = 1793577600000 \<and>
   slotEnd (p_slots (projr (MeetingPanel fixedFormatter sampleNow ''UTC'' ''UTC'' 9 17)) ! 95)
     = 1793577600000 + 86400000"
proof -
  let ?X = "MeetingPanel fixedFormatter sampleNow ''UTC'' ''UTC'' 9 17"
  note s = panelSummary_Some[OF sample_utc_utc]
  from slots_tile_reference_day[of fixedFormatter sampleNow "''UTC''" "''UTC''" 9 17 "projr ?X"]
    s(2)
  have "length (p_slots (projr ?X)) = 1440 div 15"
    and "slotStart (p_slots (projr ?X) ! 0) = p_utcDayStart (projr ?X)"
    and "slotEnd (p_slots (projr ?X) ! 95) = p_utcDayStart (projr ?X) + msPerDay"
    by blast+
  with s(1,3) show ?thesis by (simp add: msPerDay_def)
qed

text \<open>
  Claim C10: when the local hour lies in 0..23, \<open>isWork\<close> is the half-open test
  \<open>halfOpen\<close> and the condition of its second disjunct is false; local midnight read as
  hour 0, minute 0 is inside a window ending at 24 only when the window starts at 0; and so
  the flags of every slot with both hours in 0..23 are the half-open tests.
\<close>

theorem isWork_half_open_when_hour_below_24:
  "(0 \<le> hm_h lm \<and> hm_h lm \<le> 23 \<longrightarrow>
      isWork lm ws we = halfOpen (hm_h lm) ws we \<and>
      \<not> (hm_h lm = we \<and> hm_m lm = 0 \<and> we = 24)) \<and>
   (0 \<le> ws \<longrightarrow> (isWork \<lparr>hm_h = 0, hm_m = 0\<rparr> ws 24 \<longleftrightarrow> ws = 0)) \<and>
   (MeetingPanel fmt now zone lz ws we = Inr r \<and> s \<in> set (p_slots r) \<and>
      0 \<le> hm_h (localLM s) \<and> hm_h (localLM s) \<le> 23 \<and>
      0 \<le> hm_h (otherLM s) \<and> hm_h (otherLM s) \<le> 23 \<longrightarrow>
      localWork s = halfOpen (hm_h (localLM s)) ws we \<and>
      otherWork s = halfOpen (hm_h (otherLM s)) ws we \<and>
      overlap s = (halfOpen (hm_h (localLM s)) ws we \<and> halfOpen (hm_h (otherLM s)) ws we))"
proof (intro conjI impI)
  assume "0 \<le> hm_h lm \<and> hm_h lm \<le> 23"
  then show "isWork lm ws we = halfOpen (hm_h lm) ws we"
    and "\<not> (hm_h lm = we \<and> hm_m lm = 0 \<and> we = 24)"
    by (auto simp: isWork_def halfOpen_def)
next
  assume "0 \<le> ws"
  then show "isWork \<lparr>hm_h = 0, hm_m = 0\<rparr> ws 24 \<longleftrightarrow> ws = 0"
    by (auto simp: isWork_def)
next
  assume a: "MeetingPanel fmt now zone lz ws we = Inr r \<and> s \<in> set (p_slots r) \<and>
      0 \<le> hm_h (localLM s) \<and> hm_h (localLM s) \<le> 23 \<and>
      0 \<le> hm_h (otherLM s) \<and> hm_h (otherLM s) \<le> 23"
  then have sl: "slots fmt (utcDayStart now) zone lz ws we = Inr (p_slots r)"
    using MeetingPanel_Inr(2) by blast
  from a have s: "s \<in> set (p_slots r)" by simp
  show l: "localWork s = halfOpen (hm_h (localLM s)) ws we"
    using slots_flags(3)[OF sl s] a by (auto simp: isWork_def halfOpen_def)
  show o: "otherWork s = halfOpen (hm_h (otherLM s)) ws we"
    using slots_flags(4)[OF sl s] a by (auto simp: isWork_def halfOpen_def)
  show "overlap s = (halfOpen (hm_h (localLM s)) ws we \<and> halfOpen (hm_h (otherLM s)) ws we)"
    using slots_flags(5)[OF sl s] l o by simp
qed

theorem isWork_half_open_when_hour_below_24_witness:
  "0 \<le> hm_h \<lparr>hm_h = 0, hm_m = 0\<rparr> \<and> hm_h \<lparr>hm_h = 0, hm_m = 0\<rparr> \<le> 23 \<and>
   isWork \<lparr>hm_h = 0, hm_m = 0\<rparr> 0 24 = halfOpen 0 0 24 \<and>
   isWork \<lparr>hm_h = 0, hm_m = 0\<rparr> 0 24 \<and>
   \<not> isl (MeetingPanel fixedFormatter sampleNow ''UTC'' ''UTC'' 0 24) \<and>
   localLM (p_slots (projr (MeetingPanel fixedFormatter sampleNow ''UTC'' ''UTC'' 0 24)) ! 0)
     = \<lparr>hm_h = 0, hm_m = 0\<rparr> \<and>
   localWork (p_slots (projr (MeetingPanel fixedFormatter sampleNow ''UTC'' ''UTC'' 0 24)) ! 0)
     = halfOpen 0 0 24"
proof -
  let ?X = "MeetingPanel fixedFormatter sampleNow ''UTC'' ''UTC'' 0 24"
  let ?s = "p_slots (projr ?X) ! 0"
  let ?m = "\<lparr>hm_h = 0, hm_m = 0\<rparr>"
  note s = panelSummary_Some[OF sample_full_day]
  have mem: "?s \<in> set (p_slots (projr ?X))" using s(4) by simp
  have sl: "slots fixedFormatter (utcDayStart sampleNow) ''UTC'' ''UTC'' 0 24
              = Inr (p_slots (projr ?X))"
    using MeetingPanel_Inr(2)[OF s(2)] .
  have st: "slotStart ?s = 1793577600000"
    using slotAt_Inr(2)[OF slots_Inr(2)[OF sl, of 0]] MeetingPanel_Inr(1)[OF s(2)] s(3) by simp
  have lm: "localHourMinuteFromUtcMs fixedFormatter 1793577600000 ''UTC'' = Inr ?m"
    by code_simp
  have "Inr (localLM ?s) = (Inr ?m :: error + hm)"
    using slots_flags(1)[OF sl mem] unfolding st lm by (rule sym)
  then have l: "localLM ?s = ?m" by (simp only: sum.inject)
  have "Inr (otherLM ?s) = (Inr ?m :: error + hm)"
    using slots_flags(2)[OF sl mem] unfolding st lm by (rule sym)
  then have o: "otherLM ?s = ?m" by (simp only: sum.inject)
  note t = isWork_half_open_when_hour_below_24
             [of ?m 0 24 fixedFormatter sampleNow "''UTC''" "''UTC''" "projr ?X" ?s]
  have h: "0 \<le> hm_h ?m \<and> hm_h ?m \<le> 23" by simp
  have a: "isWork ?m 0 24 = halfOpen 0 0 24"
    using t[THEN conjunct1] h by simp
  have b: "isWork ?m 0 24"
    using t[THEN conjunct2, THEN conjunct1] by simp
  have c: "localWork ?s = halfOpen 0 0 24"
    using t[THEN conjunct2, THEN conjunct2] s(2) mem unfolding l o by simp
  show ?thesis using h a b s(1) l c by (intro conjI) simp_all
qed

text \<open>
  Claim C7: as stated (a window outside the documented ranges raises an error) the claim
  fails: the component never inspects the window. What holds: whether the panel fails
  depends on the formatter and the two zones alone; the window is used as it is given in
  the hour test of every slot, without clamping; and a window with
  \<open>workEnd \<le> workStart\<close> and \<open>workEnd \<noteq> 24\<close> has no working slot, hence no
  segment, no 3-hour overlap and no reported start.
\<close>

theorem MeetingPanel_takes_any_window:
  "(isl (MeetingPanel fmt now zone lz ws we) \<longleftrightarrow>
      (\<exists>k < 96. isl (fmt lz (utcDayStart now + int k * 15 * 60 * 1000)) \<or>
                isl (fmt zone (utcDayStart now + int k * 15 * 60 * 1000)))) \<and>
   (\<forall>r. MeetingPanel fmt now zone lz ws we = Inr r \<longrightarrow>
      (\<forall>s \<in> set (p_slots r).
         (localWork s \<longleftrightarrow>
            (ws \<le> hm_h (localLM s) \<and> hm_h (localLM s) < we) \<or>
            (hm_h (localLM s) = we \<and> hm_m (localLM s) = 0 \<and> we = 24)) \<and>
         (otherWork s \<longleftrightarrow>
            (ws \<le> hm_h (otherLM s) \<and> hm_h (otherLM s) < we) \<or>
            (hm_h (otherLM s) = we \<and> hm_m (otherLM s) = 0 \<and> we = 24))) \<and>
      (we \<le> ws \<and> we \<noteq> 24 \<longrightarrow>
         (\<forall>s \<in> set (p_slots r). \<not> localWork s \<and> \<not> otherWork s \<and> \<not> overlap s) \<and>
         p_overlapSegments r = [] \<and> \<not> p_hasFull3h r \<and> p_earliestFull3h r = None))"
proof (intro conjI allI impI)
  show "isl (MeetingPanel fmt now zone lz ws we) \<longleftrightarrow>
      (\<exists>k < 96. isl (fmt lz (utcDayStart now + int k * 15 * 60 * 1000)) \<or>
                isl (fmt zone (utcDayStart now + int k * 15 * 60 * 1000)))"
    by (rule MeetingPanel_isl)
next
  fix r assume a: "MeetingPanel fmt now zone lz ws we = Inr r"
  note m = MeetingPanel_Inr[OF a]
  show "\<forall>s \<in> set (p_slots r).
         (localWork s \<longleftrightarrow>
            (ws \<le> hm_h (localLM s) \<and> hm_h (localLM s) < we) \<or>
            (hm_h (localLM s) = we \<and> hm_m (localLM s) = 0 \<and> we = 24)) \<and>
         (otherWork s \<longleftrightarrow>
            (ws \<le> hm_h (otherLM s) \<and> hm_h (otherLM s) < we) \<or>
            (hm_h (otherLM s) = we \<and> hm_m (otherLM s) = 0 \<and> we = 24))"
    using slots_flags(3,4)[OF m(2)] by (simp add: isWork_def)
next
  fix r assume a: "MeetingPanel fmt now zone lz ws we = Inr r" and w: "we \<le> ws \<and> we \<noteq> 24"
  note m = MeetingPanel_Inr[OF a]
  show no: "\<forall>s \<in> set (p_slots r). \<not> localWork s \<and> \<not> otherWork s \<and> \<not> overlap s"
    using slots_flags(3,4,5)[OF m(2)] w by (auto simp: isWork_def)
  then show segs: "p_overlapSegments r = []"
    unfolding m(3) by (intro overlapSegments_no_overlap) simp
  show "\<not> p_hasFull3h r" unfolding m(4) segs by (simp add: hasFull3h_def)
  show "p_earliestFull3h r = None" unfolding m(5) segs by simp
qed

theorem MeetingPanel_takes_any_window_witness:
  "\<not> isl (MeetingPanel fixedFormatter sampleNow ''UTC'' ''UTC'' 17 9) \<and>
   p_overlapSegments (projr (MeetingPanel fixedFormatter sampleNow ''UTC'' ''UTC'' 17 9)) = [] \<and>
   \<not> p_hasFull3h (projr (MeetingPanel fixedFormatter sampleNow ''UTC'' ''UTC'' 17 9)) \<and>
   p_earliestFull3h (projr (MeetingPanel fixedFormatter sampleNow ''UTC'' ''UTC'' 17 9)) = None"
proof -
  let ?X = "MeetingPanel fixedFormatter sampleNow ''UTC'' ''UTC'' 17 9"
  note t = MeetingPanel_takes_any_window[of fixedFormatter sampleNow "''UTC''" "''UTC''" 17 9]
  have known: "\<not> isl (fixedFormatter ''UTC'' t)" for t
    by (simp add: fixedFormatter_isl fixedOffsetOf_def)
  have ok: "\<not> isl ?X" using t[THEN conjunct1] known by simp
  then have eq: "?X = Inr (projr ?X)" by simp
  have w: "(9::int) \<le> 17 \<and> (9::int) \<noteq> 24" by simp
  from t[THEN conjunct2] eq w
  have "p_overlapSegments (projr ?X) = [] \<and> \<not> p_hasFull3h (projr ?X) \<and>
        p_earliestFull3h (projr ?X) = None"
    by blast
  with ok show ?thesis by simp
qed

text \<open>
  Three windows outside the documented ranges (start after end, end above 24, start below
  0): the panel is computed for each.
\<close>

theorem MeetingPanel_no_window_error_counterexample:
  "\<not> isl (MeetingPanel fixedFormatter sampleNow ''UTC'' ''UTC'' 17 9) \<and>
   \<not> isl (MeetingPanel fixedFormatter sampleNow ''UTC'' ''UTC'' 9 30) \<and>
   \<not> isl (MeetingPanel fixedFormatter sampleNow ''UTC'' ''UTC'' (- 3) 17)"
  by (simp add: MeetingPanel_isl fixedFormatter_isl fixedOffsetOf_def)

text \<open>
  Claim C9: on the sample host, for every reference day, 09:00 to 17:00 in a zone at
  UTC+0 against 09:00 to 17:00 in a zone at UTC+5:30 gives exactly one segment, slots 36
  to 45, of 150 minutes in all, so segments exist and there is no 3-hour overlap. The
  segment reads 09:00 at its first slot and 11:15 at its last on the UTC+0 side, and 14:30
  and 16:45 on the UTC+5:30 side: the window 14:30 to 17:00 of the claim is the one of the
  UTC+5:30 side, not of the UTC+0 side. Both assignments of the two zones to \<open>zone\<close>
  and \<open>localZone\<close> are covered.
\<close>

theorem scenario_utc_and_utc_plus_0530:
  "(\<exists>r. MeetingPanel fixedFormatter now ''Asia/Kolkata'' ''UTC'' 9 17 = Inr r \<and>
        p_overlapSegments r = [\<lparr>startIdx = 36, endIdx = 45\<rparr>] \<and>
        sum_list (map (\<lambda>sg. (int (endIdx sg) - int (startIdx sg) + 1) * 15)
                      (p_overlapSegments r)) = 150 \<and>
        \<not> p_hasFull3h r \<and> p_earliestFull3h r = None \<and>
        localLM (p_slots r ! 36) = \<lparr>hm_h = 9, hm_m = 0\<rparr> \<and>
        otherLM (p_slots r ! 36) = \<lparr>hm_h = 14, hm_m = 30\<rparr> \<and>
        localLM (p_slots r ! 45) = \<lparr>hm_h = 11, hm_m = 15\<rparr> \<and>
        otherLM (p_slots r ! 45) = \<lparr>hm_h = 16, hm_m = 45\<rparr>) \<and>
   (\<exists>r. MeetingPanel fixedFormatter now ''UTC'' ''Asia/Kolkata'' 9 17 = Inr r \<and>
        p_overlapSegments r = [\<lparr>startIdx = 36, endIdx = 45\<rparr>] \<and>
        sum_list (map (\<lambda>sg. (int (endIdx sg) - int (startIdx sg) + 1) * 15)
                      (p_overlapSegments r)) = 150 \<and>
        \<not> p_hasFull3h r \<and> p_earliestFull3h r = None \<and>
        otherLM (p_slots r ! 36) = \<lparr>hm_h = 9, hm_m = 0\<rparr> \<and>
        localLM (p_slots r ! 36) = \<lparr>hm_h = 14, hm_m = 30\<rparr> \<and>
        otherLM (p_slots r ! 45) = \<lparr>hm_h = 11, hm_m = 15\<rparr> \<and>
        localLM (p_slots r ! 45) = \<lparr>hm_h = 16, hm_m = 45\<rparr>)"
proof (intro conjI)
  let ?X = "MeetingPanel fixedFormatter sampleNow ''Asia/Kolkata'' ''UTC'' 9 17"
  note s = panelSummary_Some[OF sample_utc_kolkata]
  from MeetingPanel_fixed_shift[OF s(2), of now]
  obtain r where r: "MeetingPanel fixedFormatter now ''Asia/Kolkata'' ''UTC'' 9 17 = Inr r"
    "p_slots r = map (shiftSlot (utcDayStart now - utcDayStart sampleNow)) (p_slots (projr ?X))"
    "p_overlapSegments r = p_overlapSegments (projr ?X)"
    "p_hasFull3h r = p_hasFull3h (projr ?X)"
    "p_earliestFull3h r = map_option (\<lambda>t. t + (utcDayStart now - utcDayStart sampleNow))
                             (p_earliestFull3h (projr ?X))"
    by blast
  have "p_overlapSegments r = [\<lparr>startIdx = 36, endIdx = 45\<rparr>]" using r(3) s(5) by simp
  moreover have "\<not> p_hasFull3h r" using r(4) s(6) by simp
  moreover have "p_earliestFull3h r = None" using r(5) s(7) by simp
  moreover have "localLM (p_slots r ! 36) = \<lparr>hm_h = 9, hm_m = 0\<rparr>"
    "otherLM (p_slots r ! 36) = \<lparr>hm_h = 14, hm_m = 30\<rparr>"
    "localLM (p_slots r ! 45) = \<lparr>hm_h = 11, hm_m = 15\<rparr>"
    "otherLM (p_slots r ! 45) = \<lparr>hm_h = 16, hm_m = 45\<rparr>"
    unfolding r(2) using s(4) sample_utc_kolkata_slots by (simp_all add: shiftSlot_fields)
  ultimately show "\<exists>r. MeetingPanel fixedFormatter now ''Asia/Kolkata'' ''UTC'' 9 17 = Inr r \<and>
        p_overlapSegments r = [\<lparr>startIdx = 36, endIdx = 45\<rparr>] \<and>
        sum_list (map (\<lambda>sg. (int (endIdx sg) - int (startIdx sg) + 1) * 15)
                      (p_overlapSegments r)) = 150 \<and>
        \<not> p_hasFull3h r \<and> p_earliestFull3h r = None \<and>
        localLM (p_slots r ! 36) = \<lparr>hm_h = 9, hm_m = 0\<rparr> \<and>
        otherLM (p_slots r ! 36) = \<lparr>hm_h = 14, hm_m = 30\<rparr> \<and>
        localLM (p_slots r ! 45) = \<lparr>hm_h = 11, hm_m = 15\<rparr> \<and>
        otherLM (p_slots r ! 45) = \<lparr>hm_h = 16, hm_m = 45\<rparr>"
    using r(1) by simp
next
  let ?X = "MeetingPanel fixedFormatter sampleNow ''UTC'' ''Asia/Kolkata'' 9 17"
  note s = panelSummary_Some[OF sample_kolkata_utc]
  from MeetingPanel_fixed_shift[OF s(2), of now]
  obtain r where r: "MeetingPanel fixedFormatter now ''UTC'' ''Asia/Kolkata'' 9 17 = Inr r"
    "p_slots r = map (shiftSlot (utcDayStart now - utcDayStart sampleNow)) (p_slots (projr ?X))"
    "p_overlapSegments r = p_overlapSegments (projr ?X)"
    "p_hasFull3h r = p_hasFull3h (projr ?X)"
    "p_earliestFull3h r = map_option (\<lambda>t. t + (utcDayStart now - utcDayStart sampleNow))
                             (p_earliestFull3h (projr ?X))"
    by blast
  have "p_overlapSegments r = [\<lparr>startIdx = 36, endIdx = 45\<rparr>]" using r(3) s(5) by simp
  moreover have "\<not> p_hasFull3h r" using r(4) s(6) by simp
  moreover have "p_earliestFull3h r = None" using r(5) s(7) by simp
  moreover have "otherLM (p_slots r ! 36) = \<lparr>hm_h = 9, hm_m = 0\<rparr>"
    "localLM (p_slots r ! 36) = \<lparr>hm_h = 14, hm_m = 30\<rparr>"
    "otherLM (p_slots r ! 45) = \<lparr>hm_h = 11, hm_m = 15\<rparr>"
    "localLM (p_slots r ! 45) = \<lparr>hm_h = 16, hm_m = 45\<rparr>"
    unfolding r(2) using s(4) sample_kolkata_utc_slots by (simp_all add: shiftSlot_fields)
  ultimately show "\<exists>r. MeetingPanel fixedFormatter now ''UTC'' ''Asia/Kolkata'' 9 17 = Inr r \<and>
        p_overlapSegments r = [\<lparr>startIdx = 36, endIdx = 45\<rparr>] \<and>
        sum_list (map (\<lambda>sg. (int (endIdx sg) - int (startIdx sg) + 1) * 15)
                      (p_overlapSegments r)) = 150 \<and>
        \<not> p_hasFull3h r \<and> p_earliestFull3h r = None \<and>
        otherLM (p_slots r ! 36) = \<lparr>hm_h = 9, hm_m = 0\<rparr> \<and>
        localLM (p_slots r ! 36) = \<lparr>hm_h = 14, hm_m = 30\<rparr> \<and>
        otherLM (p_slots r ! 45) = \<lparr>hm_h = 11, hm_m = 15\<rparr> \<and>
        localLM (p_slots r ! 45) = \<lparr>hm_h = 16, hm_m = 45\<rparr>"
    using r(1) by simp
qed

theorem scenario_utc_and_utc_plus_0530_witness:
  "\<not> isl (MeetingPanel fixedFormatter 0 ''Asia/Kolkata'' ''UTC'' 9 17) \<and>
   p_overlapSegments (projr (MeetingPanel fixedFormatter 0 ''Asia/Kolkata'' ''UTC'' 9 17))
     = [\<lparr>startIdx = 36, endIdx = 45\<rparr>] \<and>
   \<not> p_hasFull3h (projr (MeetingPanel fixedFormatter 0 ''Asia/Kolkata'' ''UTC'' 9 17)) \<and>
   localLM (p_slots (projr (MeetingPanel fixedFormatter 0 ''Asia/Kolkata'' ''UTC'' 9 17)) ! 36)
     = \<lparr>hm_h = 9, hm_m = 0\<rparr>"
proof -
  from scenario_utc_and_utc_plus_0530[of 0]
  obtain r where "MeetingPanel fixedFormatter 0 ''Asia/Kolkata'' ''UTC'' 9 17 = Inr r"
    "p_overlapSegments r = [\<lparr>startIdx = 36, endIdx = 45\<rparr>]" "\<not> p_hasFull3h r"
    "localLM (p_slots r ! 36) = \<lparr>hm_h = 9, hm_m = 0\<rparr>"
    by blast
  then show ?thesis by simp
qed

text \<open>
  At the first slot of the segment the side at UTC+0 reads 09:00, whichever of the two
  props carries it; 14:30 is the reading of the side at UTC+5:30.
\<close>

theorem scenario_zoneA_side_counterexample:
  "p_overlapSegments (projr (MeetingPanel fixedFormatter sampleNow ''Asia/Kolkata'' ''UTC'' 9 17))
     = [\<lparr>startIdx = 36, endIdx = 45\<rparr>] \<and>
   localLM (p_slots (projr (MeetingPanel fixedFormatter sampleNow ''Asia/Kolkata'' ''UTC'' 9 17)) ! 36)
     = \<lparr>hm_h = 9, hm_m = 0\<rparr> \<and>
   otherLM (p_slots (projr (MeetingPanel fixedFormatter sampleNow ''Asia/Kolkata'' ''UTC'' 9 17)) ! 36)
     = \<lparr>hm_h = 14, hm_m = 30\<rparr> \<and>
   p_overlapSegments (projr (MeetingPanel fixedFormatter sampleNow ''UTC'' ''Asia/Kolkata'' 9 17))
     = [\<lparr>startIdx = 36, endIdx = 45\<rparr>] \<and>
   otherLM (p_slots (projr (MeetingPanel fixedFormatter sampleNow ''UTC'' ''Asia/Kolkata'' 9 17)) ! 36)
     = \<lparr>hm_h = 9, hm_m = 0\<rparr> \<and>
   localLM (p_slots (projr (MeetingPanel fixedFormatter sampleNow ''UTC'' ''Asia/Kolkata'' 9 17)) ! 36)
     = \<lparr>hm_h = 14, hm_m = 30\<rparr>"
  using panelSummary_Some(5)[OF sample_utc_kolkata] panelSummary_Some(5)[OF sample_kolkata_utc]
    sample_utc_kolkata_slots(1,2) sample_kolkata_utc_slots(1,2)
  by (intro conjI)

section \<open>The claims about the zone list\<close>

text \<open>
  Claim C6: as stated (an id whose offset does not resolve is skipped and the build goes
  on) the claim fails: \<open>buildZonesList\<close> has no handler around
  \<open>tzOffsetMinutes\<close>, so the exception leaves \<open>map\<close> and the build. What holds:
  the build fails exactly when the offset of some listed id does not resolve, and a list
  that is returned has an entry for every listed id.
\<close>

theorem buildZonesList_fails_when_a_zone_fails:
  "(isl (buildZonesList sv fmt lc now) \<longleftrightarrow>
      (\<exists>z \<in> set (getAllTimeZones sv). isl (tzOffsetMinutes fmt z now))) \<and>
   (\<forall>arr. buildZonesList sv fmt lc now = Inr arr \<longrightarrow>
      mset (map tz arr) = mset (getAllTimeZones sv))"
proof (intro conjI allI impI)
  show "isl (buildZonesList sv fmt lc now) \<longleftrightarrow>
          (\<exists>z \<in> set (getAllTimeZones sv). isl (tzOffsetMinutes fmt z now))"
    by (rule buildZonesList_isl)
next
  fix arr assume a: "buildZonesList sv fmt lc now = Inr arr"
  have "mset arr = mset (map (zoneEntryOf fmt now) (getAllTimeZones sv))"
    unfolding buildZonesList_Inr(1)[OF a] by (rule mset_arraySort)
  then have "mset (map tz arr) = mset (map tz (map (zoneEntryOf fmt now) (getAllTimeZones sv)))"
    by (metis mset_map)
  also have "map tz (map (zoneEntryOf fmt now) (getAllTimeZones sv)) = getAllTimeZones sv"
    by (induction "getAllTimeZones sv") (simp_all add: zoneEntryOf_def comp_def)
  finally show "mset (map tz arr) = mset (getAllTimeZones sv)" .
qed

theorem buildZonesList_fails_when_a_zone_fails_witness:
  "isl (tzOffsetMinutes fixedFormatter ''Nowhere/Zone'' sampleNow) \<and>
   isl (buildZonesList (Some [''Asia/Tokyo'', ''Nowhere/Zone'', ''UTC'']) fixedFormatter
          lexCompare sampleNow) \<and>
   buildZonesList (Some [''Asia/Tokyo'', ''UTC'']) fixedFormatter lexCompare sampleNow
     = Inr [\<lparr>tz = ''UTC'', offset = 0, cont = ''Other''\<rparr>,
            \<lparr>tz = ''Asia/Tokyo'', offset = 540, cont = ''Asia''\<rparr>] \<and>
   mset (map tz [\<lparr>tz = ''UTC'', offset = 0, cont = ''Other''\<rparr>,
                 \<lparr>tz = ''Asia/Tokyo'', offset = 540, cont = ''Asia''\<rparr>])
     = mset (getAllTimeZones (Some [''Asia/Tokyo'', ''UTC'']))"
proof -
  have bad: "isl (tzOffsetMinutes fixedFormatter ''Nowhere/Zone'' sampleNow)"
    by code_simp
  have good: "buildZonesList (Some [''Asia/Tokyo'', ''UTC'']) fixedFormatter lexCompare sampleNow
     = Inr [\<lparr>tz = ''UTC'', offset = 0, cont = ''Other''\<rparr>,
            \<lparr>tz = ''Asia/Tokyo'', offset = 540, cont = ''Asia''\<rparr>]"
    by code_simp
  have "\<exists>z \<in> set (getAllTimeZones (Some [''Asia/Tokyo'', ''Nowhere/Zone'', ''UTC''])).
          isl (tzOffsetMinutes fixedFormatter z sampleNow)"
    using bad by (simp add: getAllTimeZones_def)
  then have 1: "isl (buildZonesList (Some [''Asia/Tokyo'', ''Nowhere/Zone'', ''UTC''])
                      fixedFormatter lexCompare sampleNow)"
    using buildZonesList_fails_when_a_zone_fails
            [of "Some [''Asia/Tokyo'', ''Nowhere/Zone'', ''UTC'']" fixedFormatter lexCompare sampleNow]
    by blast
  have 2: "mset (map tz [\<lparr>tz = ''UTC'', offset = 0, cont = ''Other''\<rparr>,
                 \<lparr>tz = ''Asia/Tokyo'', offset = 540, cont = ''Asia''\<rparr>])
     = mset (getAllTimeZones (Some [''Asia/Tokyo'', ''UTC'']))"
    using buildZonesList_fails_when_a_zone_fails
            [of "Some [''Asia/Tokyo'', ''UTC'']" fixedFormatter lexCompare sampleNow] good
    by blast
  from bad 1 good 2 show ?thesis by (intro conjI)
qed

text \<open>
  One unknown id between two known ones: the build fails, it does not return the two
  known zones.
\<close>

theorem buildZonesList_skip_counterexample:
  "tzOffsetMinutes fixedFormatter ''Asia/Tokyo'' sampleNow = Inr 540 \<and>
   tzOffsetMinutes fixedFormatter ''Nowhere/Zone'' sampleNow = Inl RangeError \<and>
   tzOffsetMinutes fixedFormatter ''UTC'' sampleNow = Inr 0 \<and>
   buildZonesList (Some [''Asia/Tokyo'', ''Nowhere/Zone'', ''UTC'']) fixedFormatter
     lexCompare sampleNow = Inl RangeError"
  by (intro conjI; code_simp)




end
